theory Spec2Isabelle
  imports Main "HOL-Library.AList" "HOL-Library.Sublist" "HOL-Library.Word"
begin

section \<open>Values, records and the host environment\<close>

text \<open>
  The joins library works on arrays of plain data records. A record is an object whose own
  enumerable properties hold primitive values; it is kept as an association list from
  property name to value, read by its first binding. \<open>JNum w\<close> stands for the Number
  \<open>sint w\<close>, an integer from \<open>- 2^53\<close> to \<open>2^53 - 1\<close>: every such integer is a Number,
  and the engine prints it in decimal digits. Fractions, larger Numbers, symbols, and
  objects or functions as field values are outside the type; a numeral beyond the range
  wraps around and stands for the Number it wraps to.
\<close>

datatype jsval = JUndefined | JNull | JBool bool | JNum "54 word" | JStr string

type_synonym jsobject = "(string \<times> jsval) list"

text \<open>What a merge or select callback hands back: an object or a primitive.\<close>

datatype row = Object jsobject | Primitive jsval

text \<open>
  \<open>TypeError\<close> is the exception the engine raises when a value that is not a function is
  called.
\<close>

datatype error = TypeError

text \<open>
  The built-in objects are the host's, not the library's. \<open>array_names\<close> lists the names
  of the function-valued properties that an array inherits from \<open>Array.prototype\<close> and
  \<open>Object.prototype\<close>; \<open>object_names\<close> gives, for each property a plain object inherits,
  the string its value converts to. The accessor \<open>__proto__\<close> of \<open>Object.prototype\<close> is
  handled by name.
\<close>

record host =
  array_names :: "string list"
  object_names :: "(string \<times> string) list"

text \<open>
  The names that ECMAScript 5.1 gives to \<open>Object.prototype\<close> and \<open>Array.prototype\<close>, and
  the strings that an engine prints for the built-in functions.
\<close>

definition es5_host :: host where
  "es5_host = \<lparr>
     array_names = [''constructor'', ''toString'', ''toLocaleString'', ''concat'', ''join'',
       ''pop'', ''push'', ''reverse'', ''shift'', ''slice'', ''sort'', ''splice'', ''unshift'',
       ''indexOf'', ''lastIndexOf'', ''every'', ''some'', ''forEach'', ''map'', ''filter'',
       ''reduce'', ''reduceRight'', ''valueOf'', ''hasOwnProperty'', ''isPrototypeOf'',
       ''propertyIsEnumerable''],
     object_names = [
       (''constructor'', ''function Object() { [native code] }''),
       (''toString'', ''function toString() { [native code] }''),
       (''toLocaleString'', ''function toLocaleString() { [native code] }''),
       (''valueOf'', ''function valueOf() { [native code] }''),
       (''hasOwnProperty'', ''function hasOwnProperty() { [native code] }''),
       (''isPrototypeOf'', ''function isPrototypeOf() { [native code] }''),
       (''propertyIsEnumerable'', ''function propertyIsEnumerable() { [native code] }''),
       (''__proto__'', ''[object Object]'')] \<rparr>"

text \<open>
  \<open>Array.prototype\<close> is itself an array, shared by every array of the program. Its indexed
  elements are the one piece of the host that the library can change; they are passed
  through every call as the last argument and returned with the result. A host that no
  call has touched has none.
\<close>

type_synonym aproto = "jsobject list"

definition on_clean_host :: "(aproto \<Rightarrow> 'a \<times> aproto) \<Rightarrow> 'a" where
  "on_clean_host call = fst (call [])"

subsection \<open>Truthiness and string conversion\<close>

fun truthy_val :: "jsval \<Rightarrow> bool" where
  "truthy_val JUndefined = False"
| "truthy_val JNull = False"
| "truthy_val (JBool b) = b"
| "truthy_val (JNum w) = (w \<noteq> 0)"
| "truthy_val (JStr s) = (s \<noteq> [])"

fun truthy :: "row \<Rightarrow> bool" where
  "truthy (Object r) = True"
| "truthy (Primitive v) = truthy_val v"

definition digit :: "int \<Rightarrow> char" where
  "digit d = ''0123456789'' ! nat d"

function dec :: "int \<Rightarrow> string" where
  "dec n = (if n < 10 then [digit n] else dec (n div 10) @ [digit (n mod 10)])"
  by pat_completeness auto
termination
  by (relation "measure nat") auto

declare dec.simps [simp del]

text \<open>The conversion of a value to a property name, as \<open>index[key]\<close> performs it.\<close>

fun to_string :: "jsval \<Rightarrow> string" where
  "to_string JUndefined = ''undefined''"
| "to_string JNull = ''null''"
| "to_string (JBool b) = (if b then ''true'' else ''false'')"
| "to_string (JNum w) = (if sint w < 0 then CHR ''-'' # dec (- sint w) else dec (sint w))"
| "to_string (JStr s) = s"

text \<open>
  \<open>row[key]\<close> followed by the conversion to a property name: the own property if there is
  one, else an inherited one, else \<open>undefined\<close>.
\<close>

definition prop_key :: "host \<Rightarrow> jsobject \<Rightarrow> string \<Rightarrow> string" where
  "prop_key h row key =
     (case map_of row key of
        Some v \<Rightarrow> to_string v
      | None \<Rightarrow> (case map_of (object_names h) key of
                   Some s \<Rightarrow> s
                 | None \<Rightarrow> ''undefined''))"

section \<open>The index\<close>

text \<open>
  \<open>var index = []\<close> is an array used as a dictionary. Its own properties are the groups
  stored by the first loop and \<open>length\<close>, which grows when a group is stored under an
  array index (the decimal form of a number below \<open>2^32 - 1\<close>).
\<close>

record index =
  groups :: "string \<rightharpoonup> jsobject list"
  len :: int

definition empty_index :: index where
  "empty_index = \<lparr> groups = Map.empty, len = 0 \<rparr>"

definition digits_val :: "string \<Rightarrow> int" where
  "digits_val s = foldl (\<lambda>acc c. 10 * acc + (of_char c - 48)) 0 s"

definition array_index :: "string \<Rightarrow> int option" where
  "array_index s =
     (if s \<noteq> [] \<and> list_all (\<lambda>c. c \<in> set ''0123456789'') s
         \<and> (s = ''0'' \<or> hd s \<noteq> CHR ''0'') \<and> digits_val s < 4294967295
      then Some (digits_val s) else None)"

text \<open>
  What reading \<open>index[key]\<close> finds: nothing (or the length 0), a group stored by this call,
  a truthy value that is not an array (an inherited function, a positive length, a record
  that sits at that index of \<open>Array.prototype\<close>), or \<open>Array.prototype\<close> itself.
\<close>

datatype slot =
    Missing
  | Group "jsobject list"
  | Alien
  | ProtoSelf

definition index_get :: "host \<Rightarrow> index \<Rightarrow> string \<Rightarrow> aproto \<Rightarrow> slot" where
  "index_get h idx key ap =
     (if key = ''length'' then (if len idx = 0 then Missing else Alien)
      else (case groups idx key of
              Some g \<Rightarrow> Group g
            | None \<Rightarrow>
                if key = ''__proto__'' then ProtoSelf
                else if key \<in> set (array_names h) then Alien
                else (case array_index key of
                        Some i \<Rightarrow> if i < int (length ap) then Alien else Missing
                      | None \<Rightarrow> Missing)))"

definition index_put :: "index \<Rightarrow> string \<Rightarrow> jsobject list \<Rightarrow> index" where
  "index_put idx key g =
     \<lparr> groups = (groups idx)(key \<mapsto> g),
       len = (case array_index key of Some n \<Rightarrow> max (len idx) (n + 1) | None \<Rightarrow> len idx) \<rparr>"

text \<open>
  \<open>index[key] = index[key] || []; index[key].push(row);\<close>
  A falsy \<open>length\<close> is overwritten by the length of \<open>[]\<close>, which is 0 again, and has no
  \<open>push\<close>; neither has a function or a record. Under the key \<open>__proto__\<close> the assignment
  sets the prototype that the index already has, and the row is pushed onto
  \<open>Array.prototype\<close>.
\<close>

definition index_add :: "host \<Rightarrow> index \<Rightarrow> string \<Rightarrow> jsobject \<Rightarrow> aproto
    \<Rightarrow> (error + index) \<times> aproto" where
  "index_add h idx key row ap =
     (case index_get h idx key ap of
        Missing \<Rightarrow>
          if key = ''length'' then (Inl TypeError, ap) else (Inr (index_put idx key [row]), ap)
      | Group g \<Rightarrow> (Inr (index_put idx key (g @ [row])), ap)
      | Alien \<Rightarrow> (Inl TypeError, ap)
      | ProtoSelf \<Rightarrow> (Inr idx, ap @ [row]))"

fun build_index :: "host \<Rightarrow> string \<Rightarrow> jsobject list \<Rightarrow> index \<Rightarrow> aproto
    \<Rightarrow> (error + index) \<times> aproto" where
  "build_index h rightKey [] idx ap = (Inr idx, ap)"
| "build_index h rightKey (row # rows) idx ap =
     (case index_add h idx (prop_key h row rightKey) row ap of
        (Inl e, ap') \<Rightarrow> (Inl e, ap')
      | (Inr idx', ap') \<Rightarrow> build_index h rightKey rows idx' ap')"

text \<open>
  \<open>entries = index[row[leftKey]] || [ null ]\<close>, as the list \<open>entries.forEach\<close> walks. A
  function, a record or a positive \<open>length\<close> has no \<open>forEach\<close>; \<open>Array.prototype\<close> has
  one and walks its own elements.
\<close>

definition entries_of :: "host \<Rightarrow> index \<Rightarrow> string \<Rightarrow> aproto \<Rightarrow> error + jsobject option list" where
  "entries_of h idx key ap =
     (case index_get h idx key ap of
        Missing \<Rightarrow> Inr [None]
      | Group g \<Rightarrow> Inr (map Some g)
      | Alien \<Rightarrow> Inl TypeError
      | ProtoSelf \<Rightarrow> Inr (map Some ap))"

section \<open>The iterators\<close>

text \<open>
  The callback of \<open>leftIterate\<close> receives an element of the walked array and an entry of
  the index or \<open>null\<close>. The element is an object, so the tests \<open>left &&\<close> and \<open>right &&\<close>
  that the callbacks make on it always pass; only the entry can be \<open>null\<close>. The callback
  of \<open>leftRightIterate\<close> is called with \<open>null\<close> on either side.
\<close>

type_synonym select = "jsobject \<Rightarrow> jsobject option \<Rightarrow> error + row"

type_synonym select2 = "jsobject option \<Rightarrow> jsobject option \<Rightarrow> error + row"

type_synonym merge = "jsobject \<Rightarrow> jsobject \<Rightarrow> error + row"

text \<open>A callback that ends without \<open>return\<close> yields \<open>undefined\<close>.\<close>

definition no_return :: "error + row" where
  "no_return = Inr (Primitive JUndefined)"

fun for_each :: "(jsobject option \<Rightarrow> error + row) \<Rightarrow> jsobject option list \<Rightarrow> row list
    \<Rightarrow> error + row list" where
  "for_each f [] result = Inr result"
| "for_each f (entry # entries) result =
     (case f entry of
        Inl e \<Rightarrow> Inl e
      | Inr record \<Rightarrow> for_each f entries (if truthy record then result @ [record] else result))"

text \<open>The second loop; it reads \<open>Array.prototype\<close> and does not change it.\<close>

fun iterate_left :: "host \<Rightarrow> index \<Rightarrow> string \<Rightarrow> select \<Rightarrow> jsobject list \<Rightarrow> row list
    \<Rightarrow> aproto \<Rightarrow> error + row list" where
  "iterate_left h idx leftKey sel [] result ap = Inr result"
| "iterate_left h idx leftKey sel (row # rows) result ap =
     (case entries_of h idx (prop_key h row leftKey) ap of
        Inl e \<Rightarrow> Inl e
      | Inr entries \<Rightarrow>
          (case for_each (sel row) entries result of
             Inl e \<Rightarrow> Inl e
           | Inr result' \<Rightarrow> iterate_left h idx leftKey sel rows result' ap))"

definition leftIterate :: "host \<Rightarrow> jsobject list \<Rightarrow> jsobject list \<Rightarrow> string \<Rightarrow> string \<Rightarrow> select
    \<Rightarrow> aproto \<Rightarrow> (error + row list) \<times> aproto" where
  "leftIterate h left right leftKey rightKey sel ap =
     (case build_index h rightKey right empty_index ap of
        (Inl e, ap') \<Rightarrow> (Inl e, ap')
      | (Inr idx, ap') \<Rightarrow> (iterate_left h idx leftKey sel left [] ap', ap'))"

text \<open>
  The second result is appended to the first by one call of \<open>push\<close>; the engine's limit
  on the number of arguments of a call is not modelled.
\<close>

definition leftRightIterate :: "host \<Rightarrow> jsobject list \<Rightarrow> jsobject list \<Rightarrow> string \<Rightarrow> string
    \<Rightarrow> select2 \<Rightarrow> aproto \<Rightarrow> (error + row list) \<times> aproto" where
  "leftRightIterate h left right leftKey rightKey sel ap =
     (case leftIterate h left right leftKey rightKey (\<lambda>l r. sel (Some l) r) ap of
        (Inl e, ap') \<Rightarrow> (Inl e, ap')
      | (Inr leftResult, ap') \<Rightarrow>
          (case leftIterate h right left rightKey leftKey
                  (\<lambda>r l. if l = None then sel l (Some r) else no_return) ap' of
             (Inl e, ap'') \<Rightarrow> (Inl e, ap'')
           | (Inr rightResult, ap'') \<Rightarrow> (Inr (leftResult @ rightResult), ap'')))"

section \<open>The default merge\<close>

text \<open>
  \<open>record[prop] = value\<close> on the fresh record: the name \<open>__proto__\<close> reaches the inherited
  setter, which creates no own property.
\<close>

definition assign :: "jsobject \<Rightarrow> string \<Rightarrow> jsval \<Rightarrow> jsobject" where
  "assign record prop v = (if prop = ''__proto__'' then record else AList.update prop v record)"

definition read_own :: "jsobject \<Rightarrow> string \<Rightarrow> jsval" where
  "read_own src prop = (case map_of src prop of Some v \<Rightarrow> v | None \<Rightarrow> JUndefined)"

text \<open>
  One \<open>for (prop in src)\<close> loop over the names \<open>props\<close>. \<open>src.hasOwnProperty\<close> is the
  record's own property of that name when it has one, and a primitive cannot be called.
\<close>

fun copy_props :: "jsobject \<Rightarrow> string list \<Rightarrow> jsobject \<Rightarrow> error + jsobject" where
  "copy_props src [] record = Inr record"
| "copy_props src (prop # props) record =
     (if map_of src ''hasOwnProperty'' \<noteq> None then Inl TypeError
      else copy_props src props (assign record prop (read_own src prop)))"

definition defaultMerge :: "jsobject \<Rightarrow> jsobject \<Rightarrow> error + jsobject" where
  "defaultMerge left right =
     (case copy_props left (map fst left) [] of
        Inl e \<Rightarrow> Inl e
      | Inr record \<Rightarrow> copy_props right (map fst right) record)"

text \<open>\<open>(merge || defaultMerge)\<close>\<close>

definition merge_or_default :: "merge option \<Rightarrow> merge" where
  "merge_or_default m =
     (case m of
        Some f \<Rightarrow> f
      | None \<Rightarrow> (\<lambda>l r. case defaultMerge l r of Inl e \<Rightarrow> Inl e | Inr record \<Rightarrow> Inr (Object record)))"

text \<open>\<open>left || {}\<close>\<close>

definition or_empty :: "jsobject option \<Rightarrow> jsobject" where
  "or_empty x = (case x of Some r \<Rightarrow> r | None \<Rightarrow> [])"

section \<open>The seven joins\<close>

definition innerJoin :: "host \<Rightarrow> jsobject list \<Rightarrow> jsobject list \<Rightarrow> string \<Rightarrow> string
    \<Rightarrow> merge option \<Rightarrow> aproto \<Rightarrow> (error + row list) \<times> aproto" where
  "innerJoin h left right leftKey rightKey m =
     leftIterate h left right leftKey rightKey
       (\<lambda>l r. case r of Some r' \<Rightarrow> merge_or_default m l r' | None \<Rightarrow> no_return)"

definition outerJoin :: "host \<Rightarrow> jsobject list \<Rightarrow> jsobject list \<Rightarrow> string \<Rightarrow> string
    \<Rightarrow> merge option \<Rightarrow> aproto \<Rightarrow> (error + row list) \<times> aproto" where
  "outerJoin h left right leftKey rightKey m =
     leftRightIterate h left right leftKey rightKey
       (\<lambda>l r. merge_or_default m (or_empty l) (or_empty r))"

definition leftJoin :: "host \<Rightarrow> jsobject list \<Rightarrow> jsobject list \<Rightarrow> string \<Rightarrow> string
    \<Rightarrow> merge option \<Rightarrow> aproto \<Rightarrow> (error + row list) \<times> aproto" where
  "leftJoin h left right leftKey rightKey m =
     leftIterate h left right leftKey rightKey
       (\<lambda>l r. merge_or_default m l (or_empty r))"

definition rightJoin :: "host \<Rightarrow> jsobject list \<Rightarrow> jsobject list \<Rightarrow> string \<Rightarrow> string
    \<Rightarrow> merge option \<Rightarrow> aproto \<Rightarrow> (error + row list) \<times> aproto" where
  "rightJoin h left right leftKey rightKey m =
     leftIterate h right left rightKey leftKey
       (\<lambda>r l. merge_or_default m (or_empty l) r)"

definition leftExcludingJoin :: "host \<Rightarrow> jsobject list \<Rightarrow> jsobject list \<Rightarrow> string \<Rightarrow> string
    \<Rightarrow> merge option \<Rightarrow> aproto \<Rightarrow> (error + row list) \<times> aproto" where
  "leftExcludingJoin h left right leftKey rightKey m =
     leftIterate h left right leftKey rightKey
       (\<lambda>l r. if r = None then merge_or_default m l [] else no_return)"

definition rightExcludingJoin :: "host \<Rightarrow> jsobject list \<Rightarrow> jsobject list \<Rightarrow> string \<Rightarrow> string
    \<Rightarrow> merge option \<Rightarrow> aproto \<Rightarrow> (error + row list) \<times> aproto" where
  "rightExcludingJoin h left right leftKey rightKey m =
     leftIterate h right left rightKey leftKey
       (\<lambda>r l. if l = None then merge_or_default m [] r else no_return)"

definition outerExcludingJoin :: "host \<Rightarrow> jsobject list \<Rightarrow> jsobject list \<Rightarrow> string \<Rightarrow> string
    \<Rightarrow> merge option \<Rightarrow> aproto \<Rightarrow> (error + row list) \<times> aproto" where
  "outerExcludingJoin h left right leftKey rightKey m =
     leftRightIterate h left right leftKey rightKey
       (\<lambda>l r. if l = None \<or> r = None then merge_or_default m (or_empty l) (or_empty r)
              else no_return)"

section \<open>The invocations of the callback\<close>

text \<open>
  The pairs on which \<open>leftIterate\<close> calls \<open>select\<close>, in the order of the calls: the two
  loops of \<open>leftIterate\<close> with the callback left out.
\<close>

fun calls_left :: "host \<Rightarrow> index \<Rightarrow> string \<Rightarrow> jsobject list \<Rightarrow> aproto
    \<Rightarrow> error + (jsobject \<times> jsobject option) list" where
  "calls_left h idx leftKey [] ap = Inr []"
| "calls_left h idx leftKey (row # rows) ap =
     (case entries_of h idx (prop_key h row leftKey) ap of
        Inl e \<Rightarrow> Inl e
      | Inr entries \<Rightarrow>
          (case calls_left h idx leftKey rows ap of
             Inl e \<Rightarrow> Inl e
           | Inr ps \<Rightarrow> Inr (map (Pair row) entries @ ps)))"

definition select_calls :: "host \<Rightarrow> jsobject list \<Rightarrow> jsobject list \<Rightarrow> string \<Rightarrow> string
    \<Rightarrow> aproto \<Rightarrow> error + (jsobject \<times> jsobject option) list" where
  "select_calls h left right leftKey rightKey ap =
     (case build_index h rightKey right empty_index ap of
        (Inl e, ap') \<Rightarrow> Inl e
      | (Inr idx, ap') \<Rightarrow> calls_left h idx leftKey left ap')"

text \<open>Calling \<open>select\<close> on a list of pairs in turn and keeping the truthy results.\<close>

fun collect :: "select \<Rightarrow> (jsobject \<times> jsobject option) list \<Rightarrow> error + row list" where
  "collect sel [] = Inr []"
| "collect sel (p # ps) =
     (case sel (fst p) (snd p) of
        Inl e \<Rightarrow> Inl e
      | Inr record \<Rightarrow>
          (case collect sel ps of
             Inl e \<Rightarrow> Inl e
           | Inr records \<Rightarrow> Inr (if truthy record then record # records else records)))"

text \<open>
  The right-hand records whose key converts to the property name \<open>k\<close>, in the order of
  the right-hand array.
\<close>

definition matches :: "host \<Rightarrow> string \<Rightarrow> jsobject list \<Rightarrow> string \<Rightarrow> jsobject list" where
  "matches h rightKey right k = filter (\<lambda>r. prop_key h r rightKey = k) right"

text \<open>
  A property name under which a group can be stored in the index and found again: not
  \<open>length\<close>, not \<open>__proto__\<close>, not a name that an array inherits.
\<close>

definition plain_key :: "host \<Rightarrow> string \<Rightarrow> bool" where
  "plain_key h k = (k \<noteq> ''length'' \<and> k \<noteq> ''__proto__'' \<and> k \<notin> set (array_names h))"

definition plain_keys :: "host \<Rightarrow> string \<Rightarrow> jsobject list \<Rightarrow> bool" where
  "plain_keys h key rows = list_all (\<lambda>r. plain_key h (prop_key h r key)) rows"

text \<open>No record of the array has a key that converts to \<open>__proto__\<close>.\<close>

definition no_proto_keys :: "host \<Rightarrow> string \<Rightarrow> jsobject list \<Rightarrow> bool" where
  "no_proto_keys h key rows = list_all (\<lambda>r. prop_key h r key \<noteq> ''__proto__'') rows"

text \<open>
  The entries that a left-hand record with the property name \<open>k\<close> is paired with when
  the index works as a dictionary: its matches, or \<open>null\<close> once when it has none.
\<close>

definition pairings :: "host \<Rightarrow> string \<Rightarrow> jsobject list \<Rightarrow> string \<Rightarrow> jsobject option list" where
  "pairings h rightKey right k =
     (case matches h rightKey right k of [] \<Rightarrow> [None] | ms \<Rightarrow> map Some ms)"

definition left_calls :: "host \<Rightarrow> jsobject list \<Rightarrow> jsobject list \<Rightarrow> string \<Rightarrow> string
    \<Rightarrow> (jsobject \<times> jsobject option) list" where
  "left_calls h left right leftKey rightKey =
     concat (map (\<lambda>l. map (Pair l) (pairings h rightKey right (prop_key h l leftKey))) left)"

text \<open>Merging a list of pairs of records in turn and keeping the truthy results.\<close>

fun merge_all :: "merge \<Rightarrow> (jsobject \<times> jsobject) list \<Rightarrow> error + row list" where
  "merge_all mm [] = Inr []"
| "merge_all mm (p # ps) =
     (case mm (fst p) (snd p) of
        Inl e \<Rightarrow> Inl e
      | Inr record \<Rightarrow>
          (case merge_all mm ps of
             Inl e \<Rightarrow> Inl e
           | Inr records \<Rightarrow> Inr (if truthy record then record # records else records)))"

text \<open>The matched pairs: each left-hand record with each of its matches, in order.\<close>

definition inner_calls :: "host \<Rightarrow> jsobject list \<Rightarrow> jsobject list \<Rightarrow> string \<Rightarrow> string
    \<Rightarrow> (jsobject \<times> jsobject) list" where
  "inner_calls h left right leftKey rightKey =
     concat (map (\<lambda>l. map (Pair l) (matches h rightKey right (prop_key h l leftKey))) left)"

text \<open>
  The pairs of a full outer join: every left-hand record with its matches or with nothing,
  then every right-hand record that no left-hand record matches, with nothing on the left.
\<close>

definition outer_calls :: "host \<Rightarrow> jsobject list \<Rightarrow> jsobject list \<Rightarrow> string \<Rightarrow> string
    \<Rightarrow> (jsobject option \<times> jsobject option) list" where
  "outer_calls h left right leftKey rightKey =
     map (\<lambda>p. (Some (fst p), snd p)) (left_calls h left right leftKey rightKey)
     @ map (\<lambda>r. (None, Some r))
         (filter (\<lambda>r. matches h leftKey left (prop_key h r rightKey) = []) right)"

text \<open>A merge callback that returns \<open>null\<close> for every pair.\<close>

definition null_merge :: merge where
  "null_merge l r = Inr (Primitive JNull)"



section \<open>The iterator and its invocations\<close>

lemma collect_append:
  "collect sel (ps @ qs) =
     (case collect sel ps of
        Inl e \<Rightarrow> Inl e
      | Inr xs \<Rightarrow> (case collect sel qs of Inl e \<Rightarrow> Inl e | Inr ys \<Rightarrow> Inr (xs @ ys)))"
  by (induction ps) (auto split: sum.splits)

lemma for_each_collect:
  "for_each (sel row) entries result =
     (case collect sel (map (Pair row) entries) of
        Inl e \<Rightarrow> Inl e
      | Inr rs \<Rightarrow> Inr (result @ rs))"
  by (induction entries arbitrary: result) (auto split: sum.splits)

lemma iterate_left_collect:
  "calls_left h idx leftKey rows ap = Inr ps \<Longrightarrow>
   iterate_left h idx leftKey sel rows result ap =
     (case collect sel ps of Inl e \<Rightarrow> Inl e | Inr rs \<Rightarrow> Inr (result @ rs))"
proof (induction rows arbitrary: result ps)
  case Nil
  then show ?case by simp
next
  case (Cons row rows)
  then show ?case
    by (auto simp: for_each_collect collect_append split: sum.splits)
qed

lemma iterate_left_returns:
  "iterate_left h idx leftKey sel rows result ap = Inr out \<Longrightarrow>
   \<exists>ps. calls_left h idx leftKey rows ap = Inr ps"
proof (induction rows arbitrary: result)
  case Nil
  then show ?case by simp
next
  case (Cons row rows)
  then show ?case
    by (fastforce split: sum.splits)
qed

lemma leftIterate_collect:
  "select_calls h left right leftKey rightKey ap = Inr ps \<Longrightarrow>
   fst (leftIterate h left right leftKey rightKey sel ap) = collect sel ps"
  by (auto simp: select_calls_def leftIterate_def iterate_left_collect
      split: sum.splits prod.splits)

lemma leftIterate_returns:
  "fst (leftIterate h left right leftKey rightKey sel ap) = Inr out \<Longrightarrow>
   \<exists>ps. select_calls h left right leftKey rightKey ap = Inr ps"
  by (auto simp: select_calls_def leftIterate_def split: sum.splits prod.splits
      dest: iterate_left_returns)

lemma leftIterate_state:
  "snd (leftIterate h left right leftKey rightKey sel ap)
     = snd (build_index h rightKey right empty_index ap)"
  by (auto simp: leftIterate_def split: sum.splits prod.splits)

lemma for_each_total:
  "for_each (\<lambda>e. Inr (g e)) entries result = Inr (result @ filter truthy (map g entries))"
  by (induction entries arbitrary: result) auto

lemma iterate_left_total:
  "iterate_left h idx leftKey (\<lambda>l e. Inr (f l e)) rows result ap =
     (case calls_left h idx leftKey rows ap of
        Inl e \<Rightarrow> Inl e
      | Inr ps \<Rightarrow> Inr (result @ filter truthy (map (\<lambda>(l, e). f l e) ps)))"
proof (induction rows arbitrary: result)
  case Nil
  then show ?case by simp
next
  case (Cons row rows)
  show ?case
    by (simp add: for_each_total Cons.IH comp_def split: sum.splits)
qed

text \<open>
  Whatever the two arrays, the key fields and the state of the host, and whatever a
  callback that returns normally hands back: the iterator returns the truthy results of
  the callback, in the order of the calls; the calls do not depend on the callback.
\<close>

lemma leftIterate_total:
  "fst (leftIterate h left right leftKey rightKey (\<lambda>l e. Inr (f l e)) ap) =
     (case select_calls h left right leftKey rightKey ap of
        Inl e \<Rightarrow> Inl e
      | Inr ps \<Rightarrow> Inr (filter truthy (map (\<lambda>(l, e). f l e) ps)))"
  by (simp add: leftIterate_def select_calls_def iterate_left_total
      split: sum.splits prod.splits)

section \<open>What the index holds\<close>

lemma digits_val_nonneg_aux:
  "0 \<le> acc \<Longrightarrow> list_all (\<lambda>c. c \<in> set ''0123456789'') s \<Longrightarrow>
   0 \<le> foldl (\<lambda>acc c. 10 * acc + (of_char c - 48)) (acc :: int) s"
proof (induction s arbitrary: acc)
  case Nil
  then show ?case by simp
next
  case (Cons c s)
  from Cons.prems(2) have "(0::int) \<le> of_char c - 48" by auto
  with Cons.prems(1) have "0 \<le> 10 * acc + (of_char c - 48)" by simp
  moreover from Cons.prems(2) have "list_all (\<lambda>c. c \<in> set ''0123456789'') s" by simp
  ultimately show ?case using Cons.IH by simp
qed

lemma array_index_nonneg: "array_index s = Some n \<Longrightarrow> 0 \<le> n"
  using digits_val_nonneg_aux[of 0 s]
  by (auto simp: array_index_def digits_val_def split: if_splits)

lemma array_index_proto: "array_index ''__proto__'' = None"
  by (simp add: array_index_def)

lemma index_add_result:
  assumes "index_add h idx key row ap = (Inr idx', ap')" and "groups idx ''__proto__'' = None"
  shows "groups idx' =
      (if key = ''__proto__'' then groups idx
       else (groups idx)(key \<mapsto> (case groups idx key of None \<Rightarrow> [] | Some g \<Rightarrow> g) @ [row]))"
    and "ap' = (if key = ''__proto__'' then ap @ [row] else ap)"
    and "key \<noteq> ''length''"
  using assms
  by (auto simp: index_add_def index_get_def index_put_def
      split: slot.splits if_splits option.splits)

lemma index_add_len:
  "index_add h idx key row ap = (Inr idx', ap') \<Longrightarrow> 0 \<le> len idx \<Longrightarrow>
   0 \<le> len idx' \<and> (len idx' = 0 \<longleftrightarrow> len idx = 0 \<and> array_index key = None)"
  by (auto simp: index_add_def index_get_def index_put_def array_index_proto
      split: slot.splits if_splits option.splits dest: array_index_nonneg)

lemma build_index_result:
  "build_index h rightKey rows idx ap = (Inr idx', ap') \<Longrightarrow> groups idx ''__proto__'' = None \<Longrightarrow>
   (\<forall>k. groups idx' k =
      (if k = ''__proto__'' then None
       else if matches h rightKey rows k = [] then groups idx k
       else Some ((case groups idx k of None \<Rightarrow> [] | Some g \<Rightarrow> g) @ matches h rightKey rows k)))
   \<and> ap' = ap @ matches h rightKey rows ''__proto__''
   \<and> matches h rightKey rows ''length'' = []"
proof (induction rows arbitrary: idx ap)
  case Nil
  then show ?case by (auto simp: matches_def)
next
  case (Cons row rows)
  from Cons.prems(1) obtain idx1 ap1 where
    add: "index_add h idx (prop_key h row rightKey) row ap = (Inr idx1, ap1)" and
    rest: "build_index h rightKey rows idx1 ap1 = (Inr idx', ap')"
    by (auto split: sum.splits prod.splits)
  note g1 = index_add_result(1)[OF add Cons.prems(2)]
  note a1 = index_add_result(2)[OF add Cons.prems(2)]
  note l1 = index_add_result(3)[OF add Cons.prems(2)]
  have inv: "groups idx1 ''__proto__'' = None"
    using g1 Cons.prems(2) by auto
  note ih = Cons.IH[OF rest inv]
  have "groups idx' k =
      (if k = ''__proto__'' then None
       else if matches h rightKey (row # rows) k = [] then groups idx k
       else Some ((case groups idx k of None \<Rightarrow> [] | Some g \<Rightarrow> g)
              @ matches h rightKey (row # rows) k))" for k
    using ih[THEN conjunct1, rule_format, of k] g1 Cons.prems(2)
    by (auto simp: matches_def split: option.splits)
  moreover have "ap' = ap @ matches h rightKey (row # rows) ''__proto__''"
    using ih a1 by (auto simp: matches_def)
  moreover have "matches h rightKey (row # rows) ''length'' = []"
    using ih l1 by (auto simp: matches_def)
  ultimately show ?case by blast
qed

lemma build_index_len:
  "build_index h rightKey rows idx ap = (Inr idx', ap') \<Longrightarrow> 0 \<le> len idx \<Longrightarrow>
   (len idx' = 0 \<longleftrightarrow>
      len idx = 0 \<and> list_all (\<lambda>r. array_index (prop_key h r rightKey) = None) rows)"
proof (induction rows arbitrary: idx ap)
  case Nil
  then show ?case by simp
next
  case (Cons row rows)
  from Cons.prems obtain idx1 ap1 where
    add: "index_add h idx (prop_key h row rightKey) row ap = (Inr idx1, ap1)" and
    rest: "build_index h rightKey rows idx1 ap1 = (Inr idx', ap')"
    by (auto split: sum.splits prod.splits)
  from index_add_len[OF add Cons.prems(2)] Cons.IH[OF rest]
  show ?case by auto
qed

lemma built_index_groups:
  "build_index h rightKey right empty_index ap = (Inr idx, ap') \<Longrightarrow>
   groups idx k =
     (if k = ''__proto__'' \<or> matches h rightKey right k = [] then None
      else Some (matches h rightKey right k))"
  by (drule build_index_result) (auto simp: empty_index_def)

lemma built_index_state:
  "build_index h rightKey right empty_index ap = (Inr idx, ap') \<Longrightarrow>
   ap' = ap @ matches h rightKey right ''__proto__''"
  by (drule build_index_result) (auto simp: empty_index_def)

lemma built_index_no_length:
  "build_index h rightKey right empty_index ap = (Inr idx, ap') \<Longrightarrow>
   matches h rightKey right ''length'' = []"
  by (drule build_index_result) (auto simp: empty_index_def)

text \<open>
  On a clean host, wherever the lookup of a key does not raise, it yields the matches of
  the key, or \<open>null\<close> once when there are none; except that the key \<open>__proto__\<close> without
  a match yields nothing at all.
\<close>

lemma entries_of_built:
  assumes "build_index h rightKey right empty_index [] = (Inr idx, ap')"
    and "entries_of h idx k ap' = Inr es"
  shows "es = (if matches h rightKey right k = []
               then (if k = ''__proto__'' then [] else [None])
               else map Some (matches h rightKey right k))"
proof -
  have ap': "ap' = matches h rightKey right ''__proto__''"
    using built_index_state[OF assms(1)] by simp
  have nl: "matches h rightKey right ''length'' = []"
    using built_index_no_length[OF assms(1)] .
  show ?thesis
    using assms(2) built_index_groups[OF assms(1), of k] ap' nl
    by (auto simp: entries_of_def index_get_def split: slot.splits option.splits if_splits)
qed

lemma index_add_total:
  "plain_key h key \<Longrightarrow> \<exists>idx'. index_add h idx key row [] = (Inr idx', [])"
  by (auto simp: index_add_def index_get_def plain_key_def
      split: slot.splits option.splits dest: array_index_nonneg)

lemma build_index_total:
  "plain_keys h rightKey rows \<Longrightarrow> \<exists>idx'. build_index h rightKey rows idx [] = (Inr idx', [])"
proof (induction rows arbitrary: idx)
  case Nil
  then show ?case by simp
next
  case (Cons row rows)
  then have p: "plain_key h (prop_key h row rightKey)" and ps: "plain_keys h rightKey rows"
    by (simp_all add: plain_keys_def)
  from index_add_total[OF p] obtain idx1 where
    "index_add h idx (prop_key h row rightKey) row [] = (Inr idx1, [])" by blast
  with Cons.IH[OF ps, of idx1] show ?case by auto
qed

lemma matches_plain:
  "plain_keys h rightKey right \<Longrightarrow> matches h rightKey right k \<noteq> [] \<Longrightarrow> plain_key h k"
  by (auto simp: plain_keys_def matches_def list_all_iff filter_empty_conv)

lemma entries_of_plain:
  assumes "build_index h rightKey right empty_index [] = (Inr idx, [])" and "plain_key h k"
  shows "entries_of h idx k [] = Inr (pairings h rightKey right k)"
  using assms(2) built_index_groups[OF assms(1), of k]
  by (auto simp: entries_of_def index_get_def plain_key_def pairings_def
      split: slot.splits option.splits list.splits dest: array_index_nonneg)

lemma calls_left_plain:
  assumes "build_index h rightKey right empty_index [] = (Inr idx, [])"
  shows "plain_keys h leftKey left \<Longrightarrow>
    calls_left h idx leftKey left [] = Inr (left_calls h left right leftKey rightKey)"
  by (induction left) (auto simp: plain_keys_def left_calls_def entries_of_plain[OF assms])

lemma select_calls_plain:
  "plain_keys h rightKey right \<Longrightarrow> plain_keys h leftKey left \<Longrightarrow>
   select_calls h left right leftKey rightKey [] = Inr (left_calls h left right leftKey rightKey)"
  using build_index_total[of h rightKey right empty_index]
  by (auto simp: select_calls_def calls_left_plain)

lemma leftIterate_plain_state:
  "plain_keys h rightKey right \<Longrightarrow> snd (leftIterate h left right leftKey rightKey sel []) = []"
  using build_index_total[of h rightKey right empty_index]
  by (auto simp: leftIterate_state)

lemma calls_left_built:
  assumes "build_index h rightKey right empty_index [] = (Inr idx, ap')"
  shows "calls_left h idx leftKey left ap' = Inr ps \<Longrightarrow>
    ps = concat (map (\<lambda>l. if prop_key h l leftKey = ''__proto__''
                              \<and> matches h rightKey right ''__proto__'' = [] then []
                          else map (Pair l) (pairings h rightKey right (prop_key h l leftKey))) left)"
proof (induction left arbitrary: ps)
  case Nil
  then show ?case by simp
next
  case (Cons l left)
  from Cons.prems obtain es qs where
    es: "entries_of h idx (prop_key h l leftKey) ap' = Inr es" and
    qs: "calls_left h idx leftKey left ap' = Inr qs" and
    ps: "ps = map (Pair l) es @ qs"
    by (auto split: sum.splits)
  have "es = (if prop_key h l leftKey = ''__proto__''
                  \<and> matches h rightKey right ''__proto__'' = [] then []
              else pairings h rightKey right (prop_key h l leftKey))"
    unfolding entries_of_built[OF assms es]
    by (auto simp: pairings_def split: list.splits)
  with Cons.IH[OF qs] ps show ?case by simp
qed

lemma select_calls_returns:
  "select_calls h left right leftKey rightKey [] = Inr ps \<Longrightarrow>
   ps = concat (map (\<lambda>l. if prop_key h l leftKey = ''__proto__''
                             \<and> matches h rightKey right ''__proto__'' = [] then []
                         else map (Pair l) (pairings h rightKey right (prop_key h l leftKey))) left)"
  by (auto simp: select_calls_def split: sum.splits prod.splits dest: calls_left_built)

lemma pairings_None:
  "e \<in> set (pairings h rightKey right k) \<Longrightarrow> e = None \<longleftrightarrow> matches h rightKey right k = []"
  by (cases "matches h rightKey right k") (auto simp: pairings_def)

lemma select_calls_unmatched:
  assumes "select_calls h left right leftKey rightKey [] = Inr ps" and "(l, e) \<in> set ps"
  shows "e = None \<longleftrightarrow> matches h rightKey right (prop_key h l leftKey) = []"
proof -
  from assms(2) select_calls_returns[OF assms(1)]
  have "e \<in> set (pairings h rightKey right (prop_key h l leftKey))"
    by (auto split: if_splits)
  then show ?thesis by (rule pairings_None)
qed

lemma select_calls_returns_no_proto:
  assumes "select_calls h left right leftKey rightKey [] = Inr ps"
    and "no_proto_keys h leftKey left"
  shows "ps = left_calls h left right leftKey rightKey"
proof -
  have "concat (map (\<lambda>l. if prop_key h l leftKey = ''__proto__''
                             \<and> matches h rightKey right ''__proto__'' = [] then []
                         else map (Pair l) (pairings h rightKey right (prop_key h l leftKey))) left)
      = left_calls h left right leftKey rightKey"
    using assms(2) unfolding left_calls_def no_proto_keys_def
    by (induction left) auto
  with select_calls_returns[OF assms(1)] show ?thesis by simp
qed

lemma leftIterate_no_proto_state:
  assumes "fst (leftIterate h left right leftKey rightKey sel []) = Inr rows"
    and "no_proto_keys h rightKey right"
  shows "snd (leftIterate h left right leftKey rightKey sel []) = []"
proof -
  from assms(1) obtain idx ap' where
    b: "build_index h rightKey right empty_index [] = (Inr idx, ap')"
    by (auto simp: leftIterate_def split: sum.splits prod.splits)
  have "matches h rightKey right ''__proto__'' = []"
    using assms(2) by (auto simp: no_proto_keys_def matches_def list_all_iff filter_empty_conv)
  with built_index_state[OF b] b show ?thesis
    by (simp add: leftIterate_state)
qed

section \<open>What the joins return\<close>

lemma merge_all_append:
  "merge_all mm (ps @ qs) =
     (case merge_all mm ps of
        Inl e \<Rightarrow> Inl e
      | Inr xs \<Rightarrow> (case merge_all mm qs of Inl e \<Rightarrow> Inl e | Inr ys \<Rightarrow> Inr (xs @ ys)))"
  by (induction ps) (auto split: sum.splits)

lemma merge_all_kept:
  "merge_all mm qs = Inr rows \<Longrightarrow>
   \<forall>q \<in> set qs. \<forall>v. mm (fst q) (snd q) = Inr v \<longrightarrow> truthy v \<Longrightarrow>
   map Inr rows = map (\<lambda>q. mm (fst q) (snd q)) qs"
proof (induction qs arbitrary: rows)
  case Nil
  then show ?case by simp
next
  case (Cons q qs)
  from Cons.prems(1) obtain v vs where
    v: "mm (fst q) (snd q) = Inr v" and vs: "merge_all mm qs = Inr vs" and
    rows: "rows = (if truthy v then v # vs else vs)"
    by (auto split: sum.splits)
  from Cons.prems(2) v have "truthy v" by simp
  moreover have "map Inr vs = map (\<lambda>q. mm (fst q) (snd q)) qs"
    using Cons.IH[OF vs] Cons.prems(2) by simp
  ultimately show ?case using v rows by simp
qed

lemma merge_all_total_on:
  "\<forall>q \<in> set qs. \<exists>v. mm (fst q) (snd q) = Inr v \<Longrightarrow> \<exists>rows. merge_all mm qs = Inr rows"
  by (induction qs) (auto split: sum.splits)

lemma collect_matched:
  assumes "\<And>l r. sel l (Some r) = mm l r"
  shows "collect sel (map (Pair l) (map Some ms)) = merge_all mm (map (Pair l) ms)"
  by (induction ms) (auto simp: assms split: sum.splits)

lemma collect_inner_pairings:
  assumes "\<And>l. sel l None = no_return" and "\<And>l r. sel l (Some r) = mm l r"
  shows "collect sel (map (Pair l) (pairings h rightKey right k))
     = merge_all mm (map (Pair l) (matches h rightKey right k))"
proof (cases "matches h rightKey right k")
  case Nil
  then show ?thesis by (simp add: pairings_def assms(1) no_return_def)
next
  case (Cons r rs)
  then have "pairings h rightKey right k = map Some (matches h rightKey right k)"
    by (simp add: pairings_def)
  then show ?thesis
    using collect_matched[of sel mm l "matches h rightKey right k", OF assms(2)] by simp
qed

lemma inner_calls_Cons:
  "inner_calls h (l # ls) right leftKey rightKey
     = map (Pair l) (matches h rightKey right (prop_key h l leftKey))
       @ inner_calls h ls right leftKey rightKey"
  by (simp add: inner_calls_def)

lemma collect_kept:
  "collect sel ps = Inr rows \<Longrightarrow>
   \<forall>p \<in> set ps. \<forall>v. sel (fst p) (snd p) = Inr v \<longrightarrow> truthy v \<Longrightarrow>
   map Inr rows = map (\<lambda>p. sel (fst p) (snd p)) ps"
proof (induction ps arbitrary: rows)
  case Nil
  then show ?case by simp
next
  case (Cons p ps)
  from Cons.prems(1) obtain v vs where
    v: "sel (fst p) (snd p) = Inr v" and vs: "collect sel ps = Inr vs" and
    rows: "rows = (if truthy v then v # vs else vs)"
    by (auto split: sum.splits)
  from Cons.prems(2) v have "truthy v" by simp
  moreover have "map Inr vs = map (\<lambda>p. sel (fst p) (snd p)) ps"
    using Cons.IH[OF vs] Cons.prems(2) by simp
  ultimately show ?case using v rows by simp
qed

lemma collect_total_on:
  "\<forall>p \<in> set ps. \<exists>v. sel (fst p) (snd p) = Inr v \<Longrightarrow> \<exists>rows. collect sel ps = Inr rows"
  by (induction ps) (auto split: sum.splits)

lemma default_merge_truthy: "merge_or_default None l r = Inr v \<Longrightarrow> truthy v"
  by (auto simp: merge_or_default_def split: sum.splits)

lemma length_inner_calls:
  "length (inner_calls h left right leftKey rightKey)
     = (\<Sum>l\<leftarrow>left. length (matches h rightKey right (prop_key h l leftKey)))"
  by (simp add: inner_calls_def length_concat comp_def)

lemma length_pairings:
  "length (pairings h rightKey right k) = max (length (matches h rightKey right k)) 1"
  by (cases "matches h rightKey right k") (simp_all add: pairings_def)

lemma length_left_calls:
  "length (left_calls h left right leftKey rightKey)
     = (\<Sum>l\<leftarrow>left. max (length (matches h rightKey right (prop_key h l leftKey))) 1)"
  by (simp add: left_calls_def length_concat comp_def length_pairings)

lemma merge_all_member:
  "merge_all mm qs = Inr rows \<Longrightarrow> q \<in> set qs \<Longrightarrow> mm (fst q) (snd q) = Inr v \<Longrightarrow>
   truthy v \<Longrightarrow> v \<in> set rows"
proof (induction qs arbitrary: rows)
  case Nil
  then show ?case by simp
next
  case (Cons p qs)
  from Cons.prems(1) obtain w ws where
    w: "mm (fst p) (snd p) = Inr w" and ws: "merge_all mm qs = Inr ws" and
    rows: "rows = (if truthy w then w # ws else ws)"
    by (auto split: sum.splits)
  show ?case
  proof (cases "q = p")
    case True
    with w Cons.prems(3,4) rows show ?thesis by simp
  next
    case False
    with Cons.prems(2) have "q \<in> set qs" by simp
    from Cons.IH[OF ws this Cons.prems(3,4)] rows show ?thesis by simp
  qed
qed

lemma prop_key_missing:
  "map_of (object_names h) key = None \<Longrightarrow> map_of row key = None \<Longrightarrow>
   prop_key h row key = ''undefined''"
  by (simp add: prop_key_def)

lemma inner_calls_member:
  "l \<in> set left \<Longrightarrow> r \<in> set right \<Longrightarrow> prop_key h r rightKey = prop_key h l leftKey \<Longrightarrow>
   (l, r) \<in> set (inner_calls h left right leftKey rightKey)"
  by (auto simp: inner_calls_def matches_def)

lemma or_empty_Some [simp]: "or_empty (Some r) = r"
  by (simp add: or_empty_def)

lemma or_empty_None [simp]: "or_empty None = []"
  by (simp add: or_empty_def)

lemma collect_filter:
  "collect sel ps = Inr rows \<Longrightarrow>
   \<exists>rows'. collect sel (filter P ps) = Inr rows' \<and> subseq rows' rows"
proof (induction ps arbitrary: rows)
  case Nil
  then show ?case by simp
next
  case (Cons p ps)
  from Cons.prems obtain v vs where
    v: "sel (fst p) (snd p) = Inr v" and vs: "collect sel ps = Inr vs" and
    rows: "rows = (if truthy v then v # vs else vs)"
    by (auto split: sum.splits)
  from Cons.IH[OF vs] obtain ws where ws: "collect sel (filter P ps) = Inr ws" "subseq ws vs"
    by blast
  show ?case
    using v ws rows by (auto simp: subseq_Cons')
qed

lemma collect_excluding:
  "collect (\<lambda>l r. if r = None then mm l [] else no_return) ps
     = collect (\<lambda>l e. mm l (or_empty e)) (filter (\<lambda>p. snd p = None) ps)"
  by (induction ps) (auto simp: or_empty_def no_return_def split: sum.splits)

lemma collect_excluding_right:
  "collect (\<lambda>r l. if l = None then mm [] r else no_return) ps
     = collect (\<lambda>r e. mm (or_empty e) r) (filter (\<lambda>p. snd p = None) ps)"
  by (induction ps) (auto simp: or_empty_def no_return_def split: sum.splits)

lemma unmatched_left_calls:
  "filter (\<lambda>p. snd p = None) (left_calls h left right leftKey rightKey)
     = map (\<lambda>l. (l, None))
         (filter (\<lambda>l. matches h rightKey right (prop_key h l leftKey) = []) left)"
proof (induction left)
  case Nil
  then show ?case by (simp add: left_calls_def)
next
  case (Cons l left)
  have step: "left_calls h (l # left) right leftKey rightKey
      = map (Pair l) (pairings h rightKey right (prop_key h l leftKey))
        @ left_calls h left right leftKey rightKey"
    by (simp add: left_calls_def)
  have one: "filter (\<lambda>p. snd p = None) (map (Pair l) (pairings h rightKey right k))
      = (if matches h rightKey right k = [] then [(l, None)] else [])" for k
    by (cases "matches h rightKey right k") (auto simp: pairings_def filter_empty_conv)
  show ?case
    using Cons.IH by (simp add: step one)
qed

lemma count_list_filter:
  "count_list (filter P xs) x = (if P x then count_list xs x else 0)"
  by (induction xs) auto

lemma count_list_Pair:
  "count_list (map (Pair a) es) (b, e) = (if a = b then count_list es e else 0)"
  by (induction es) auto

lemma count_list_Some: "count_list (map Some xs) (Some x) = count_list xs x"
  by (induction xs) auto

lemma count_list_Some_None: "count_list (map Some xs) None = 0"
  by (induction xs) auto

lemma count_pairings_Some:
  "count_list (pairings h rightKey right k) (Some r)
     = (if prop_key h r rightKey = k then count_list right r else 0)"
proof (cases "matches h rightKey right k")
  case Nil
  then have "count_list (matches h rightKey right k) r = 0" by simp
  then show ?thesis
    using Nil by (simp add: pairings_def matches_def count_list_filter)
next
  case (Cons a ms)
  then have "pairings h rightKey right k = map Some (matches h rightKey right k)"
    by (simp add: pairings_def)
  then show ?thesis
    by (simp add: count_list_Some) (simp add: matches_def count_list_filter)
qed

lemma count_pairings_None:
  "count_list (pairings h rightKey right k) None
     = (if matches h rightKey right k = [] then 1 else 0)"
proof (cases "matches h rightKey right k")
  case Nil
  then show ?thesis by (simp add: pairings_def)
next
  case (Cons a ms)
  then have "pairings h rightKey right k = map Some (matches h rightKey right k)"
    by (simp add: pairings_def)
  then show ?thesis using Cons by (simp add: count_list_Some_None)
qed

lemma left_calls_Cons:
  "left_calls h (l # left) right leftKey rightKey
     = map (Pair l) (pairings h rightKey right (prop_key h l leftKey))
       @ left_calls h left right leftKey rightKey"
  by (simp add: left_calls_def)

lemma count_left_calls_Some:
  "count_list (left_calls h left right leftKey rightKey) (l, Some r)
     = (if prop_key h r rightKey = prop_key h l leftKey
        then count_list left l * count_list right r else 0)"
proof (induction left)
  case Nil
  then show ?case by (simp add: left_calls_def)
next
  case (Cons a left)
  show ?case
    by (simp add: left_calls_Cons count_list_Pair count_pairings_Some Cons.IH)
qed

lemma count_left_calls_None:
  "count_list (left_calls h left right leftKey rightKey) (l, None)
     = (if matches h rightKey right (prop_key h l leftKey) = [] then count_list left l else 0)"
proof (induction left)
  case Nil
  then show ?case by (simp add: left_calls_def)
next
  case (Cons a left)
  show ?case
    by (simp add: left_calls_Cons count_list_Pair count_pairings_None Cons.IH)
qed

lemma count_list_left_part:
  "count_list (map (\<lambda>p. (Some (fst p), snd p)) ps) (Some l, e) = count_list ps (l, e)"
  by (induction ps) auto

lemma count_list_left_part_None:
  "count_list (map (\<lambda>p. (Some (fst p), snd p)) ps) (None, e) = 0"
  by (induction ps) auto

lemma count_list_right_part:
  "count_list (map (\<lambda>r. (None, Some r)) rs) (None, Some r) = count_list rs r"
  by (induction rs) auto

lemma count_list_right_part_Some:
  "count_list (map (\<lambda>r. (None, Some r)) rs) (Some l, e) = 0"
  by (induction rs) auto

lemma count_outer_calls_matched:
  "count_list (outer_calls h left right leftKey rightKey) (Some l, Some r)
     = (if prop_key h l leftKey = prop_key h r rightKey
        then count_list left l * count_list right r else 0)"
  by (auto simp: outer_calls_def count_list_left_part count_list_right_part_Some
      count_left_calls_Some)

lemma count_outer_calls_left_only:
  "count_list (outer_calls h left right leftKey rightKey) (Some l, None)
     = (if matches h rightKey right (prop_key h l leftKey) = [] then count_list left l else 0)"
  by (simp add: outer_calls_def count_list_left_part count_list_right_part_Some
      count_left_calls_None)

lemma count_outer_calls_right_only:
  "count_list (outer_calls h left right leftKey rightKey) (None, Some r)
     = (if matches h leftKey left (prop_key h r rightKey) = [] then count_list right r else 0)"
  by (simp add: outer_calls_def count_list_left_part_None count_list_right_part
      count_list_filter)

lemma pairings_nonempty: "pairings h rightKey right k \<noteq> []"
  by (cases "matches h rightKey right k") (simp_all add: pairings_def)

lemma outer_calls_left_member:
  assumes "l \<in> set left"
  shows "\<exists>e. (Some l, e) \<in> set (outer_calls h left right leftKey rightKey)"
proof -
  obtain e where "e \<in> set (pairings h rightKey right (prop_key h l leftKey))"
    using pairings_nonempty[of h rightKey right "prop_key h l leftKey"]
    by (cases "pairings h rightKey right (prop_key h l leftKey)") auto
  with assms have "(l, e) \<in> set (left_calls h left right leftKey rightKey)"
    by (auto simp: left_calls_def)
  then have "(Some l, e) \<in> set (outer_calls h left right leftKey rightKey)"
    by (force simp: outer_calls_def)
  then show ?thesis ..
qed

lemma outer_calls_right_member:
  assumes "r \<in> set right"
  shows "\<exists>e. (e, Some r) \<in> set (outer_calls h left right leftKey rightKey)"
proof (cases "matches h leftKey left (prop_key h r rightKey) = []")
  case True
  with assms have "(None, Some r) \<in> set (outer_calls h left right leftKey rightKey)"
    by (simp add: outer_calls_def)
  then show ?thesis ..
next
  case False
  then obtain l where l: "l \<in> set left" "prop_key h l leftKey = prop_key h r rightKey"
    by (auto simp: matches_def filter_empty_conv)
  have "count_list left l \<noteq> 0" and "count_list right r \<noteq> 0"
    using l(1) assms by (simp_all add: count_list_0_iff)
  then have "0 < count_list left l * count_list right r"
    by simp
  with l have "count_list (outer_calls h left right leftKey rightKey) (Some l, Some r) \<noteq> 0"
    by (simp add: count_outer_calls_matched)
  then have "(Some l, Some r) \<in> set (outer_calls h left right leftKey rightKey)"
    by (simp add: count_list_0_iff)
  then show ?thesis ..
qed

lemma map_of_assign:
  "map_of (assign record prop v) k
     = (if prop = ''__proto__'' then map_of record k else ((map_of record)(prop \<mapsto> v)) k)"
  by (simp add: assign_def update_conv')

lemma copy_props_fields:
  assumes "map_of src ''hasOwnProperty'' = None" and "set props \<subseteq> fst ` set src"
  shows "\<exists>out. copy_props src props acc = Inr out \<and>
    (\<forall>k. map_of out k
       = (if k \<in> set props \<and> k \<noteq> ''__proto__'' then map_of src k else map_of acc k))"
  using assms(2)
proof (induction props arbitrary: acc)
  case Nil
  then show ?case by simp
next
  case (Cons p props)
  from Cons.prems obtain v where v: "map_of src p = Some v"
    by (cases "map_of src p") (force simp: map_of_eq_None_iff)+
  from Cons.prems have sub: "set props \<subseteq> fst ` set src" by simp
  from Cons.IH[OF sub, of "assign acc p (read_own src p)"]
  obtain out where out: "copy_props src props (assign acc p (read_own src p)) = Inr out"
    and fields: "\<forall>k. map_of out k
       = (if k \<in> set props \<and> k \<noteq> ''__proto__'' then map_of src k
          else map_of (assign acc p (read_own src p)) k)"
    by blast
  have "copy_props src (p # props) acc = Inr out"
    using assms(1) out by simp
  moreover have "map_of out k
       = (if k \<in> set (p # props) \<and> k \<noteq> ''__proto__'' then map_of src k else map_of acc k)"
    for k
    using fields v by (auto simp: map_of_assign read_own_def)
  ultimately show ?case by blast
qed

lemma defaultMerge_fields:
  assumes "map_of left ''hasOwnProperty'' = None" and "map_of right ''hasOwnProperty'' = None"
  shows "\<exists>record. defaultMerge left right = Inr record \<and>
    (\<forall>k. map_of record k
       = (if k = ''__proto__'' then None else (map_of left ++ map_of right) k))"
proof -
  from copy_props_fields[OF assms(1), of "map fst left" "[]"]
  obtain a where a: "copy_props left (map fst left) [] = Inr a" and
    af: "\<forall>k. map_of a k = (if k \<in> fst ` set left \<and> k \<noteq> ''__proto__'' then map_of left k else None)"
    by auto
  from copy_props_fields[OF assms(2), of "map fst right" a]
  obtain b where b: "copy_props right (map fst right) a = Inr b" and
    bf: "\<forall>k. map_of b k
      = (if k \<in> fst ` set right \<and> k \<noteq> ''__proto__'' then map_of right k else map_of a k)"
    by auto
  have "defaultMerge left right = Inr b"
    using a b by (simp add: defaultMerge_def)
  moreover have "map_of b k = (if k = ''__proto__'' then None else (map_of left ++ map_of right) k)"
    for k
  proof -
    have dom: "x \<in> fst ` set xs \<longleftrightarrow> map_of xs x \<noteq> None" for x and xs :: jsobject
      by (simp add: map_of_eq_None_iff)
    show ?thesis
      using af[rule_format, of k] bf[rule_format, of k] unfolding dom
      by (auto simp: map_add_def split: option.splits)
  qed
  ultimately show ?thesis by blast
qed


lemma collect_inner_calls:
  assumes sel: "\<And>l. sel l None = no_return" "\<And>l r. sel l (Some r) = mm l r"
    and calls: "select_calls h left right leftKey rightKey [] = Inr ps"
  shows "collect sel ps = merge_all mm (inner_calls h left right leftKey rightKey)"
proof -
  note ps = select_calls_returns[OF calls]
  have "collect sel
          (concat (map (\<lambda>l. if prop_key h l leftKey = ''__proto__''
                                \<and> matches h rightKey right ''__proto__'' = [] then []
                         else map (Pair l) (pairings h rightKey right (prop_key h l leftKey))) ls))
     = merge_all mm (inner_calls h ls right leftKey rightKey)" for ls
  proof (induction ls)
    case Nil
    then show ?case by (simp add: inner_calls_def)
  next
    case (Cons l ls)
    show ?case
    proof (cases "prop_key h l leftKey = ''__proto__''
        \<and> matches h rightKey right ''__proto__'' = []")
      case True
      then show ?thesis using Cons.IH by (simp add: inner_calls_Cons)
    next
      case False
      then show ?thesis
        using Cons.IH
        by (simp add: inner_calls_Cons collect_append merge_all_append
            collect_inner_pairings[of sel mm, OF sel] cong: sum.case_cong)
    qed
  qed
  then show ?thesis unfolding ps .
qed

lemma innerJoin_returns:
  assumes "on_clean_host (innerJoin h left right leftKey rightKey m) = Inr rows"
  shows "merge_all (merge_or_default m) (inner_calls h left right leftKey rightKey) = Inr rows"
proof -
  from assms obtain ps where ps: "select_calls h left right leftKey rightKey [] = Inr ps"
    unfolding innerJoin_def on_clean_host_def by (blast dest: leftIterate_returns)
  show ?thesis
    using assms unfolding innerJoin_def on_clean_host_def leftIterate_collect[OF ps]
    by (subst (asm) collect_inner_calls[where mm = "merge_or_default m", OF _ _ ps]) simp_all
qed

lemma innerJoin_plain:
  assumes "plain_keys h leftKey left" and "plain_keys h rightKey right"
  shows "on_clean_host (innerJoin h left right leftKey rightKey m)
    = merge_all (merge_or_default m) (inner_calls h left right leftKey rightKey)"
proof -
  note ps = select_calls_plain[OF assms(2) assms(1)]
  show ?thesis
    unfolding innerJoin_def on_clean_host_def leftIterate_collect[OF ps]
    by (rule collect_inner_calls[OF _ _ ps]) simp_all
qed

lemma innerJoin_cardinality:
  assumes "on_clean_host (innerJoin h left right leftKey rightKey None) = Inr rows"
  shows "length rows = (\<Sum>l\<leftarrow>left. length (matches h rightKey right (prop_key h l leftKey)))"
proof -
  have "map Inr rows = map (\<lambda>q. merge_or_default None (fst q) (snd q))
      (inner_calls h left right leftKey rightKey)"
    by (rule merge_all_kept[OF innerJoin_returns[OF assms]]) (simp add: default_merge_truthy)
  then have "length (map Inr rows :: (error + row) list)
      = length (map (\<lambda>q. merge_or_default None (fst q) (snd q))
          (inner_calls h left right leftKey rightKey))"
    by (rule arg_cong)
  then have "length rows = length (inner_calls h left right leftKey rightKey)"
    by (simp only: length_map)
  then show ?thesis by (simp add: length_inner_calls)
qed

lemma leftJoin_cardinality:
  assumes "plain_keys h leftKey left" and "plain_keys h rightKey right"
    and "on_clean_host (leftJoin h left right leftKey rightKey None) = Inr rows"
  shows "length rows
    = (\<Sum>l\<leftarrow>left. max (length (matches h rightKey right (prop_key h l leftKey))) 1)"
proof -
  note ps = select_calls_plain[OF assms(2) assms(1)]
  have "collect (\<lambda>l r. merge_or_default None l (or_empty r))
      (left_calls h left right leftKey rightKey) = Inr rows"
    using assms(3) unfolding leftJoin_def on_clean_host_def leftIterate_collect[OF ps] .
  then have "map Inr rows = map (\<lambda>p. merge_or_default None (fst p) (or_empty (snd p)))
      (left_calls h left right leftKey rightKey)"
    by (rule collect_kept) (simp add: default_merge_truthy)
  then have "length (map Inr rows :: (error + row) list)
      = length (map (\<lambda>p. merge_or_default None (fst p) (or_empty (snd p)))
          (left_calls h left right leftKey rightKey))"
    by (rule arg_cong)
  then have "length rows = length (left_calls h left right leftKey rightKey)"
    by (simp only: length_map)
  then show ?thesis by (simp add: length_left_calls)
qed

text \<open>
  On a host that no call has touched, whenever the inner join returns and the merge
  results are truthy, the rows are the merge results of every left-hand record with each
  of its matches, the left-hand records in their order and, for each, its matches in the
  order of the right-hand array. The join returns when every key can be held by the index
  and the merge returns.
\<close>

lemma innerJoin_rows:
  "(\<forall>rows. on_clean_host (innerJoin h left right leftKey rightKey m) = Inr rows \<longrightarrow>
      (\<forall>q \<in> set (inner_calls h left right leftKey rightKey).
         \<forall>v. merge_or_default m (fst q) (snd q) = Inr v \<longrightarrow> truthy v) \<longrightarrow>
      map Inr rows
        = map (\<lambda>q. merge_or_default m (fst q) (snd q))
            (inner_calls h left right leftKey rightKey)) \<and>
   (plain_keys h leftKey left \<longrightarrow> plain_keys h rightKey right \<longrightarrow>
      (\<forall>q \<in> set (inner_calls h left right leftKey rightKey).
         \<exists>v. merge_or_default m (fst q) (snd q) = Inr v) \<longrightarrow>
      (\<exists>rows. on_clean_host (innerJoin h left right leftKey rightKey m) = Inr rows))"
proof (intro conjI allI impI)
  fix rows
  assume "on_clean_host (innerJoin h left right leftKey rightKey m) = Inr rows"
    and "\<forall>q \<in> set (inner_calls h left right leftKey rightKey).
         \<forall>v. merge_or_default m (fst q) (snd q) = Inr v \<longrightarrow> truthy v"
  then show "map Inr rows = map (\<lambda>q. merge_or_default m (fst q) (snd q))
            (inner_calls h left right leftKey rightKey)"
    by (intro merge_all_kept innerJoin_returns)
next
  assume "plain_keys h leftKey left" and "plain_keys h rightKey right"
    and "\<forall>q \<in> set (inner_calls h left right leftKey rightKey).
         \<exists>v. merge_or_default m (fst q) (snd q) = Inr v"
  then show "\<exists>rows. on_clean_host (innerJoin h left right leftKey rightKey m) = Inr rows"
    by (simp add: innerJoin_plain merge_all_total_on)
qed

section \<open>The two passes of the outer join\<close>

text \<open>
  The outer join is the left join followed by the right excluding join on the host that
  the left join leaves.
\<close>

lemma outerJoin_two_passes:
  "outerJoin h left right leftKey rightKey m ap =
     (case leftJoin h left right leftKey rightKey m ap of
        (Inl e, ap') \<Rightarrow> (Inl e, ap')
      | (Inr leftRows, ap') \<Rightarrow>
          (case rightExcludingJoin h left right leftKey rightKey m ap' of
             (Inl e, ap'') \<Rightarrow> (Inl e, ap'')
           | (Inr rightRows, ap'') \<Rightarrow> (Inr (leftRows @ rightRows), ap'')))"
proof -
  have first: "(\<lambda>l r. merge_or_default m (or_empty (Some l)) (or_empty r))
      = (\<lambda>l r. merge_or_default m l (or_empty r))"
    by (simp add: or_empty_def)
  have second: "(\<lambda>r l. if l = None then merge_or_default m (or_empty l) (or_empty (Some r))
        else no_return)
      = (\<lambda>r l. if l = None then merge_or_default m [] r else no_return)"
    by (auto simp: or_empty_def fun_eq_iff)
  show ?thesis
    unfolding outerJoin_def leftRightIterate_def leftJoin_def rightExcludingJoin_def
      first second ..
qed

lemma plain_keys_no_proto: "plain_keys h key rows \<Longrightarrow> no_proto_keys h key rows"
  by (auto simp: plain_keys_def no_proto_keys_def plain_key_def list_all_iff)

lemma outerJoin_passes:
  assumes "on_clean_host (outerJoin h left right leftKey rightKey m) = Inr rows"
    and npl: "no_proto_keys h leftKey left" and npr: "no_proto_keys h rightKey right"
  shows "\<exists>a b. rows = a @ b \<and>
    collect (\<lambda>l e. merge_or_default m l (or_empty e))
        (left_calls h left right leftKey rightKey) = Inr a \<and>
    collect (\<lambda>r e. merge_or_default m (or_empty e) r)
        (map (\<lambda>r. (r, None))
           (filter (\<lambda>r. matches h leftKey left (prop_key h r rightKey) = []) right)) = Inr b"
proof -
  from assms(1) obtain a b ap1 where
    a: "leftJoin h left right leftKey rightKey m [] = (Inr a, ap1)" and
    b: "fst (rightExcludingJoin h left right leftKey rightKey m ap1) = Inr b" and
    rows: "rows = a @ b"
    unfolding on_clean_host_def outerJoin_two_passes
    by (auto split: sum.splits prod.splits)
  from a have fa: "fst (leftJoin h left right leftKey rightKey m []) = Inr a" by simp
  have ap1: "ap1 = []"
    using leftIterate_no_proto_state[OF fa[unfolded leftJoin_def] npr] a
    by (simp add: leftJoin_def)
  from fa obtain ps where ps: "select_calls h left right leftKey rightKey [] = Inr ps"
    unfolding leftJoin_def by (blast dest: leftIterate_returns)
  from b obtain qs where qs: "select_calls h right left rightKey leftKey [] = Inr qs"
    unfolding rightExcludingJoin_def ap1 by (blast dest: leftIterate_returns)
  have ps': "ps = left_calls h left right leftKey rightKey"
    using select_calls_returns_no_proto[OF ps npl] .
  have qs': "qs = left_calls h right left rightKey leftKey"
    using select_calls_returns_no_proto[OF qs npr] .
  have A: "collect (\<lambda>l e. merge_or_default m l (or_empty e))
        (left_calls h left right leftKey rightKey) = Inr a"
    using fa unfolding leftJoin_def leftIterate_collect[OF ps] ps' .
  have "collect (\<lambda>r l. if l = None then merge_or_default m [] r else no_return) qs = Inr b"
    using b unfolding rightExcludingJoin_def ap1 leftIterate_collect[OF qs] .
  then have B: "collect (\<lambda>r e. merge_or_default m (or_empty e) r)
        (map (\<lambda>r. (r, None))
           (filter (\<lambda>r. matches h leftKey left (prop_key h r rightKey) = []) right)) = Inr b"
    unfolding collect_excluding_right[where mm = "merge_or_default m"] qs' unmatched_left_calls .
  from rows A B show ?thesis by blast
qed

lemma outerJoin_plain:
  assumes "plain_keys h leftKey left" and "plain_keys h rightKey right"
  shows "on_clean_host (outerJoin h left right leftKey rightKey m) =
    (case collect (\<lambda>l e. merge_or_default m l (or_empty e))
        (left_calls h left right leftKey rightKey) of
       Inl e \<Rightarrow> Inl e
     | Inr a \<Rightarrow>
        (case collect (\<lambda>r e. merge_or_default m (or_empty e) r)
            (map (\<lambda>r. (r, None))
               (filter (\<lambda>r. matches h leftKey left (prop_key h r rightKey) = []) right)) of
           Inl e \<Rightarrow> Inl e
         | Inr b \<Rightarrow> Inr (a @ b)))"
proof -
  note ps = select_calls_plain[OF assms(2) assms(1)]
  note qs = select_calls_plain[OF assms(1) assms(2)]
  have excl: "collect (\<lambda>r l. if l = None then merge_or_default m [] r else no_return)
      (left_calls h right left rightKey leftKey)
    = collect (\<lambda>r e. merge_or_default m (or_empty e) r)
        (map (\<lambda>r. (r, None))
           (filter (\<lambda>r. matches h leftKey left (prop_key h r rightKey) = []) right))"
    unfolding collect_excluding_right[where mm = "merge_or_default m"] unmatched_left_calls ..
  have first: "leftJoin h left right leftKey rightKey m []
      = (collect (\<lambda>l e. merge_or_default m l (or_empty e))
           (left_calls h left right leftKey rightKey), [])"
    using leftIterate_collect[OF ps] leftIterate_plain_state[OF assms(2)]
    by (simp add: leftJoin_def prod_eq_iff)
  have second: "fst (rightExcludingJoin h left right leftKey rightKey m [])
      = collect (\<lambda>r e. merge_or_default m (or_empty e) r)
        (map (\<lambda>r. (r, None))
           (filter (\<lambda>r. matches h leftKey left (prop_key h r rightKey) = []) right))"
    unfolding rightExcludingJoin_def leftIterate_collect[OF qs] excl ..
  show ?thesis
    unfolding on_clean_host_def outerJoin_two_passes first
    using second
    by (auto split: sum.splits prod.splits)
qed

section \<open>The filter of the iterator\<close>


section \<open>Relations between the joins\<close>

text \<open>
  C1, as stated, fails for a merge callback that returns a falsy value: the iterator drops
  the result, and the records of both arrays are missing from the outer join.
\<close>

theorem outerJoin_drops_falsy_merge_results:
  "on_clean_host (outerJoin es5_host [[(''id'', JNum 1)]] [[(''id'', JNum 2)]] ''id'' ''id''
       (Some null_merge))
     = Inr []"
  by code_simp

text \<open>
  C1, amended to merge results that are truthy and to keys other than \<open>__proto__\<close>, on a
  host that no call has touched. Whenever the outer join returns, its rows are the merge
  results of the pairs of \<open>outer_calls\<close>, in order, and it returns when every key can be
  held by the index and the merge returns. Among these pairs every left-hand record
  occurs, every right-hand record occurs, a left-hand and a right-hand record with the
  same key are paired as often as they occur in their arrays (once, when each occurs
  once), a left-hand record occurs without a right-hand one only when it has no match, and
  a right-hand record occurs without a left-hand one only when no left-hand record has its
  key: the second pass adds nothing for a record that the first pass paired.
\<close>

theorem outerJoin_complete:
  "(\<forall>rows. on_clean_host (outerJoin h left right leftKey rightKey m) = Inr rows \<longrightarrow>
      no_proto_keys h leftKey left \<longrightarrow> no_proto_keys h rightKey right \<longrightarrow>
      (\<forall>p \<in> set (outer_calls h left right leftKey rightKey).
         \<forall>v. merge_or_default m (or_empty (fst p)) (or_empty (snd p)) = Inr v \<longrightarrow> truthy v) \<longrightarrow>
      map Inr rows
        = map (\<lambda>p. merge_or_default m (or_empty (fst p)) (or_empty (snd p)))
            (outer_calls h left right leftKey rightKey)) \<and>
   (plain_keys h leftKey left \<longrightarrow> plain_keys h rightKey right \<longrightarrow>
      (\<forall>p \<in> set (outer_calls h left right leftKey rightKey).
         \<exists>v. merge_or_default m (or_empty (fst p)) (or_empty (snd p)) = Inr v) \<longrightarrow>
      (\<exists>rows. on_clean_host (outerJoin h left right leftKey rightKey m) = Inr rows)) \<and>
   (\<forall>l \<in> set left. \<exists>e. (Some l, e) \<in> set (outer_calls h left right leftKey rightKey)) \<and>
   (\<forall>r \<in> set right. \<exists>e. (e, Some r) \<in> set (outer_calls h left right leftKey rightKey)) \<and>
   (\<forall>l r. count_list (outer_calls h left right leftKey rightKey) (Some l, Some r)
      = (if prop_key h l leftKey = prop_key h r rightKey
         then count_list left l * count_list right r else 0)) \<and>
   (\<forall>l. count_list (outer_calls h left right leftKey rightKey) (Some l, None)
      = (if matches h rightKey right (prop_key h l leftKey) = [] then count_list left l else 0)) \<and>
   (\<forall>r. count_list (outer_calls h left right leftKey rightKey) (None, Some r)
      = (if matches h leftKey left (prop_key h r rightKey) = [] then count_list right r else 0))"
proof -
  let ?F = "\<lambda>p. merge_or_default m (or_empty (fst p)) (or_empty (snd p))"
  let ?U = "filter (\<lambda>r. matches h leftKey left (prop_key h r rightKey) = []) right"
  have split: "map ?F (outer_calls h left right leftKey rightKey)
      = map (\<lambda>p. merge_or_default m (fst p) (or_empty (snd p)))
          (left_calls h left right leftKey rightKey)
        @ map (\<lambda>p. merge_or_default m (or_empty (snd p)) (fst p)) (map (\<lambda>r. (r, None)) ?U)"
    by (simp add: outer_calls_def comp_def)
  have B: "map Inr rows = map ?F (outer_calls h left right leftKey rightKey)"
    if ret: "on_clean_host (outerJoin h left right leftKey rightKey m) = Inr rows"
      and npl: "no_proto_keys h leftKey left" and npr: "no_proto_keys h rightKey right"
      and tr: "\<forall>p \<in> set (outer_calls h left right leftKey rightKey).
         \<forall>v. ?F p = Inr v \<longrightarrow> truthy v"
    for rows
  proof -
    from outerJoin_passes[OF ret npl npr] obtain a b where
      rows: "rows = a @ b" and
      a: "collect (\<lambda>l e. merge_or_default m l (or_empty e))
            (left_calls h left right leftKey rightKey) = Inr a" and
      b: "collect (\<lambda>r e. merge_or_default m (or_empty e) r) (map (\<lambda>r. (r, None)) ?U) = Inr b"
      by blast
    have ta: "\<forall>p \<in> set (left_calls h left right leftKey rightKey).
        \<forall>v. merge_or_default m (fst p) (or_empty (snd p)) = Inr v \<longrightarrow> truthy v"
    proof (intro ballI allI impI)
      fix p v
      assume p: "p \<in> set (left_calls h left right leftKey rightKey)"
        and v: "merge_or_default m (fst p) (or_empty (snd p)) = Inr v"
      from p have "(Some (fst p), snd p) \<in> set (outer_calls h left right leftKey rightKey)"
        by (force simp: outer_calls_def)
      with tr v show "truthy v" by force
    qed
    have tb: "\<forall>p \<in> set (map (\<lambda>r. (r, None)) ?U).
        \<forall>v. merge_or_default m (or_empty (snd p)) (fst p) = Inr v \<longrightarrow> truthy v"
    proof (intro ballI allI impI)
      fix p v
      assume p: "p \<in> set (map (\<lambda>r. (r, None)) ?U)"
        and v: "merge_or_default m (or_empty (snd p)) (fst p) = Inr v"
      from p have "(None, Some (fst p)) \<in> set (outer_calls h left right leftKey rightKey)"
        and "snd p = None"
        by (auto simp: outer_calls_def)
      with tr v show "truthy v" by force
    qed
    have "map Inr a = map (\<lambda>p. merge_or_default m (fst p) (or_empty (snd p)))
        (left_calls h left right leftKey rightKey)"
      using collect_kept[OF a ta] .
    moreover have "map Inr b = map (\<lambda>p. merge_or_default m (or_empty (snd p)) (fst p))
        (map (\<lambda>r. (r, None)) ?U)"
      using collect_kept[OF b tb] .
    ultimately show ?thesis
      unfolding split rows by simp
  qed
  have A: "\<exists>rows. on_clean_host (outerJoin h left right leftKey rightKey m) = Inr rows"
    if pl: "plain_keys h leftKey left" and pr: "plain_keys h rightKey right"
      and tot: "\<forall>p \<in> set (outer_calls h left right leftKey rightKey). \<exists>v. ?F p = Inr v"
  proof -
    have "\<forall>p \<in> set (left_calls h left right leftKey rightKey).
        \<exists>v. merge_or_default m (fst p) (or_empty (snd p)) = Inr v"
    proof
      fix p
      assume "p \<in> set (left_calls h left right leftKey rightKey)"
      then have "(Some (fst p), snd p) \<in> set (outer_calls h left right leftKey rightKey)"
        by (force simp: outer_calls_def)
      with tot show "\<exists>v. merge_or_default m (fst p) (or_empty (snd p)) = Inr v" by force
    qed
    then obtain a where a: "collect (\<lambda>l e. merge_or_default m l (or_empty e))
            (left_calls h left right leftKey rightKey) = Inr a"
      using collect_total_on[of "left_calls h left right leftKey rightKey"
          "\<lambda>l e. merge_or_default m l (or_empty e)"] by blast
    have "\<forall>p \<in> set (map (\<lambda>r. (r, None)) ?U).
        \<exists>v. merge_or_default m (or_empty (snd p)) (fst p) = Inr v"
    proof
      fix p
      assume "p \<in> set (map (\<lambda>r. (r, None :: jsobject option)) ?U)"
      then have "(None, Some (fst p)) \<in> set (outer_calls h left right leftKey rightKey)"
        and "snd p = None"
        by (auto simp: outer_calls_def)
      with tot show "\<exists>v. merge_or_default m (or_empty (snd p)) (fst p) = Inr v" by force
    qed
    then obtain b where b: "collect (\<lambda>r e. merge_or_default m (or_empty e) r)
        (map (\<lambda>r. (r, None)) ?U) = Inr b"
      using collect_total_on[of "map (\<lambda>r. (r, None)) ?U"
          "\<lambda>r e. merge_or_default m (or_empty e) r"] by blast
    show ?thesis
      unfolding outerJoin_plain[OF pl pr] a b by simp
  qed
  show ?thesis
    using A B outer_calls_left_member[of _ left h right leftKey rightKey]
      outer_calls_right_member[of _ right h left leftKey rightKey]
      count_outer_calls_matched[of h left right leftKey rightKey]
      count_outer_calls_left_only[of h left right leftKey rightKey]
      count_outer_calls_right_only[of h left right leftKey rightKey]
    by (intro conjI allI impI ballI) blast+
qed

theorem outerJoin_complete_witness:
  "plain_keys es5_host ''id'' [[(''id'', JNum 1)], [(''id'', JNum 2)]] \<and>
   plain_keys es5_host ''id'' [[(''id'', JNum 1), (''x'', JStr ''a'')], [(''id'', JNum 7)]] \<and>
   on_clean_host (outerJoin es5_host [[(''id'', JNum 1)], [(''id'', JNum 2)]]
       [[(''id'', JNum 1), (''x'', JStr ''a'')], [(''id'', JNum 7)]] ''id'' ''id'' None)
     = Inr [Object [(''id'', JNum 1), (''x'', JStr ''a'')], Object [(''id'', JNum 2)],
            Object [(''id'', JNum 7)]] \<and>
   outer_calls es5_host [[(''id'', JNum 1)], [(''id'', JNum 2)]]
       [[(''id'', JNum 1), (''x'', JStr ''a'')], [(''id'', JNum 7)]] ''id'' ''id''
     = [(Some [(''id'', JNum 1)], Some [(''id'', JNum 1), (''x'', JStr ''a'')]),
        (Some [(''id'', JNum 2)], None),
        (None, Some [(''id'', JNum 7)])] \<and>
   map Inr [Object [(''id'', JNum 1), (''x'', JStr ''a'')], Object [(''id'', JNum 2)],
            Object [(''id'', JNum 7)]]
     = map (\<lambda>p. merge_or_default None (or_empty (fst p)) (or_empty (snd p)))
         (outer_calls es5_host [[(''id'', JNum 1)], [(''id'', JNum 2)]]
            [[(''id'', JNum 1), (''x'', JStr ''a'')], [(''id'', JNum 7)]] ''id'' ''id'')"
proof -
  let ?L = "[[(''id'', JNum 1)], [(''id'', JNum 2)]]"
  let ?R = "[[(''id'', JNum 1), (''x'', JStr ''a'')], [(''id'', JNum 7)]]"
  have pl: "plain_keys es5_host ''id'' ?L" by code_simp
  have pr: "plain_keys es5_host ''id'' ?R" by code_simp
  have npl: "no_proto_keys es5_host ''id'' ?L" by code_simp
  have npr: "no_proto_keys es5_host ''id'' ?R" by code_simp
  have ex: "on_clean_host (outerJoin es5_host ?L ?R ''id'' ''id'' None)
     = Inr [Object [(''id'', JNum 1), (''x'', JStr ''a'')], Object [(''id'', JNum 2)],
            Object [(''id'', JNum 7)]]"
    by code_simp
  have calls: "outer_calls es5_host ?L ?R ''id'' ''id''
     = [(Some [(''id'', JNum 1)], Some [(''id'', JNum 1), (''x'', JStr ''a'')]),
        (Some [(''id'', JNum 2)], None),
        (None, Some [(''id'', JNum 7)])]"
    by code_simp
  have tr: "\<forall>p \<in> set (outer_calls es5_host ?L ?R ''id'' ''id'').
      \<forall>v. merge_or_default None (or_empty (fst p)) (or_empty (snd p)) = Inr v \<longrightarrow> truthy v"
    by (auto dest: default_merge_truthy)
  from outerJoin_complete[of es5_host ?L ?R "''id''" "''id''" None, THEN conjunct1,
      THEN spec, THEN mp, THEN mp, THEN mp, THEN mp, OF ex npl npr tr] pl pr ex calls
  show ?thesis by (intro conjI)
qed


text \<open>
  C9. On a host that no call has touched, with a right-hand record keyed \<open>__proto__\<close> after
  one keyed 0: \<open>leftJoin\<close> returns its row and \<open>rightExcludingJoin\<close> returns no row, so
  their concatenation is that row; \<open>outerJoin\<close> raises, because its first pass has pushed
  the right-hand record onto \<open>Array.prototype\<close>, where the index of the second pass finds
  it under the key 0. The two passes are the two joins run one after the other on the
  same host (\<open>outerJoin_two_passes\<close>).
\<close>

theorem outerJoin_raises_after_leftJoin_pollutes:
  "on_clean_host (outerJoin es5_host [[(''id'', JNum 0)]]
       [[(''id'', JNum 0)], [(''id'', JStr ''__proto__'')]] ''id'' ''id'' None)
     = Inl TypeError \<and>
   on_clean_host (leftJoin es5_host [[(''id'', JNum 0)]]
       [[(''id'', JNum 0)], [(''id'', JStr ''__proto__'')]] ''id'' ''id'' None)
     = Inr [Object [(''id'', JNum 0)]] \<and>
   on_clean_host (rightExcludingJoin es5_host [[(''id'', JNum 0)]]
       [[(''id'', JNum 0)], [(''id'', JStr ''__proto__'')]] ''id'' ''id'' None)
     = Inr []"
  by code_simp

text \<open>
  C5, as stated, takes the rows of left-hand records without a match to be the rows whose
  right-hand side is the empty record. A right-hand record can be empty: here the
  left-hand record matches the empty record, the row of \<open>leftJoin\<close> has an empty
  right-hand side, and \<open>leftExcludingJoin\<close> does not return it.
\<close>

theorem leftJoin_row_of_empty_match:
  "on_clean_host (leftJoin es5_host [[(''name'', JStr ''Joe'')]] [[]] ''id'' ''id'' None)
     = Inr [Object [(''name'', JStr ''Joe'')]] \<and>
   select_calls es5_host [[(''name'', JStr ''Joe'')]] [[]] ''id'' ''id'' []
     = Inr [([(''name'', JStr ''Joe'')], Some [])] \<and>
   or_empty (Some []) = [] \<and>
   on_clean_host (leftExcludingJoin es5_host [[(''name'', JStr ''Joe'')]] [[]] ''id'' ''id'' None)
     = Inr []"
  by code_simp

text \<open>
  C5, amended. On a host that no call has touched, whenever \<open>leftJoin\<close> returns its rows,
  \<open>leftExcludingJoin\<close> on the same arguments returns the rows among them that come from
  the calls with no right-hand entry, in the same order; these are the calls for the
  left-hand records that have no match.
\<close>

theorem leftExcludingJoin_is_unmatched_part_of_leftJoin:
  assumes "on_clean_host (leftJoin h left right leftKey rightKey m) = Inr rows"
  shows "\<exists>ps rows'.
    select_calls h left right leftKey rightKey [] = Inr ps \<and>
    (\<forall>(l, e) \<in> set ps. e = None \<longleftrightarrow> matches h rightKey right (prop_key h l leftKey) = []) \<and>
    collect (\<lambda>l e. merge_or_default m l (or_empty e)) ps = Inr rows \<and>
    collect (\<lambda>l e. merge_or_default m l (or_empty e)) (filter (\<lambda>p. snd p = None) ps) = Inr rows' \<and>
    on_clean_host (leftExcludingJoin h left right leftKey rightKey m) = Inr rows' \<and>
    subseq rows' rows"
proof -
  from assms obtain ps where ps: "select_calls h left right leftKey rightKey [] = Inr ps"
    unfolding leftJoin_def on_clean_host_def by (blast dest: leftIterate_returns)
  have rows: "collect (\<lambda>l e. merge_or_default m l (or_empty e)) ps = Inr rows"
    using assms unfolding leftJoin_def on_clean_host_def leftIterate_collect[OF ps] .
  from collect_filter[OF rows, of "\<lambda>p. snd p = None"] obtain rows' where
    rows': "collect (\<lambda>l e. merge_or_default m l (or_empty e)) (filter (\<lambda>p. snd p = None) ps) = Inr rows'"
      "subseq rows' rows"
    by blast
  have "on_clean_host (leftExcludingJoin h left right leftKey rightKey m) = Inr rows'"
    unfolding leftExcludingJoin_def on_clean_host_def leftIterate_collect[OF ps] collect_excluding
    using rows'(1) .
  moreover have "\<forall>(l, e) \<in> set ps. e = None \<longleftrightarrow> matches h rightKey right (prop_key h l leftKey) = []"
    using select_calls_unmatched[OF ps] by auto
  ultimately show ?thesis using ps rows rows' by blast
qed

theorem leftExcludingJoin_is_unmatched_part_of_leftJoin_witness:
  "on_clean_host (leftJoin es5_host [[(''id'', JNum 1)], [(''id'', JNum 2)]]
       [[(''id'', JNum 1), (''x'', JStr ''a'')], [(''id'', JStr ''__proto__'')]] ''id'' ''id'' None)
     = Inr [Object [(''id'', JNum 1), (''x'', JStr ''a'')], Object [(''id'', JNum 2)]] \<and>
   on_clean_host (leftExcludingJoin es5_host [[(''id'', JNum 1)], [(''id'', JNum 2)]]
       [[(''id'', JNum 1), (''x'', JStr ''a'')], [(''id'', JStr ''__proto__'')]] ''id'' ''id'' None)
     = Inr [Object [(''id'', JNum 2)]] \<and>
   (\<exists>ps rows'.
      select_calls es5_host [[(''id'', JNum 1)], [(''id'', JNum 2)]]
        [[(''id'', JNum 1), (''x'', JStr ''a'')], [(''id'', JStr ''__proto__'')]] ''id'' ''id'' []
        = Inr ps \<and>
      on_clean_host (leftExcludingJoin es5_host [[(''id'', JNum 1)], [(''id'', JNum 2)]]
        [[(''id'', JNum 1), (''x'', JStr ''a'')], [(''id'', JStr ''__proto__'')]] ''id'' ''id'' None)
        = Inr rows' \<and>
      subseq rows' [Object [(''id'', JNum 1), (''x'', JStr ''a'')], Object [(''id'', JNum 2)]])"
proof -
  have l: "on_clean_host (leftJoin es5_host [[(''id'', JNum 1)], [(''id'', JNum 2)]]
       [[(''id'', JNum 1), (''x'', JStr ''a'')], [(''id'', JStr ''__proto__'')]] ''id'' ''id'' None)
     = Inr [Object [(''id'', JNum 1), (''x'', JStr ''a'')], Object [(''id'', JNum 2)]]"
    by code_simp
  have e: "on_clean_host (leftExcludingJoin es5_host [[(''id'', JNum 1)], [(''id'', JNum 2)]]
       [[(''id'', JNum 1), (''x'', JStr ''a'')], [(''id'', JStr ''__proto__'')]] ''id'' ''id'' None)
     = Inr [Object [(''id'', JNum 2)]]"
    by code_simp
  from leftExcludingJoin_is_unmatched_part_of_leftJoin[OF l] l e show ?thesis
    by blast
qed

section \<open>Cardinalities\<close>

text \<open>The example of the README: three people, five properties, three joined rows.\<close>

lemma innerJoin_example:
  "on_clean_host (innerJoin es5_host
     [[(''name'', JStr ''Joe''), (''accountId'', JNum 1)],
      [(''name'', JStr ''Julie''), (''accountId'', JNum 2)],
      [(''name'', JStr ''Mark''), (''accountId'', JNum 3)]]
     [[(''pid'', JNum 1), (''loc'', JStr ''123 Main'')],
      [(''pid'', JNum 3), (''loc'', JStr ''45 West'')],
      [(''pid'', JNum 5), (''loc'', JStr ''917 Gothard'')],
      [(''pid'', JNum 3), (''loc'', JStr ''1700 Ave K'')],
      [(''pid'', JNum 4), (''loc'', JStr ''277 Hwy'')]]
     ''accountId'' ''pid'' None)
   = Inr [Object [(''name'', JStr ''Joe''), (''accountId'', JNum 1), (''pid'', JNum 1),
                  (''loc'', JStr ''123 Main'')],
          Object [(''name'', JStr ''Mark''), (''accountId'', JNum 3), (''pid'', JNum 3),
                  (''loc'', JStr ''45 West'')],
          Object [(''name'', JStr ''Mark''), (''accountId'', JNum 3), (''pid'', JNum 3),
                  (''loc'', JStr ''1700 Ave K'')]]"
  by code_simp

text \<open>
  C2. With the key \<open>constructor\<close> on both sides the left-hand record has one match, so
  the inner join should have one row; the first loop finds the inherited function under
  that name, calls its missing \<open>push\<close>, and the join raises instead. Where the join
  returns, the number of rows is the sum of the match counts
  (\<open>innerJoin_cardinality\<close>).
\<close>

theorem innerJoin_raises_on_constructor_key:
  "on_clean_host (innerJoin es5_host [[(''id'', JStr ''constructor'')]]
       [[(''id'', JStr ''constructor'')]] ''id'' ''id'' None) = Inl TypeError \<and>
   (\<Sum>l\<leftarrow>[[(''id'', JStr ''constructor'')]].
       length (matches es5_host ''id'' [[(''id'', JStr ''constructor'')]] (prop_key es5_host l ''id'')))
     = 1"
  by code_simp

text \<open>
  C3. A left join of one record with the key \<open>constructor\<close> and an empty right-hand array
  should have one row; the lookup finds the inherited function, calls its missing
  \<open>forEach\<close>, and the join raises. With the key \<open>__proto__\<close> the lookup finds
  \<open>Array.prototype\<close>, which has no elements, and the record is dropped without an
  exception. On keys that the index can hold, the number of rows is the sum of
  \<open>max matchCount 1\<close> (\<open>leftJoin_cardinality\<close>).
\<close>

theorem leftJoin_loses_left_record:
  "on_clean_host (leftJoin es5_host [[(''id'', JStr ''constructor'')]] [] ''id'' ''id'' None)
     = Inl TypeError \<and>
   on_clean_host (leftJoin es5_host [[(''id'', JStr ''__proto__'')]] [] ''id'' ''id'' None)
     = Inr [] \<and>
   (\<Sum>l\<leftarrow>[[(''id'', JStr ''constructor'')]].
       max (length (matches es5_host ''id'' [] (prop_key es5_host l ''id''))) 1) = 1"
  by code_simp

lemma innerJoin_fan_out_example:
  "on_clean_host (innerJoin es5_host [[(''id'', JNum 1)]]
       [[(''id'', JNum 1), (''x'', JStr ''a'')], [(''id'', JNum 1), (''x'', JStr ''b'')]]
       ''id'' ''id'' None)
     = Inr [Object [(''id'', JNum 1), (''x'', JStr ''a'')],
            Object [(''id'', JNum 1), (''x'', JStr ''b'')]]"
  by code_simp

text \<open>
  C4. A left-hand record with the key \<open>push\<close> and two right-hand records with that key
  has two matches and should give two rows, in the order of the right-hand array; the
  first loop finds the inherited function under that name and the join raises. With the
  key 1 in place of \<open>push\<close> the two rows come out in order
  (\<open>innerJoin_fan_out_example\<close>), and so they do on every call that returns
  (\<open>innerJoin_rows\<close>).
\<close>

theorem innerJoin_raises_on_two_matches:
  "matches es5_host ''id''
       [[(''id'', JStr ''push''), (''x'', JStr ''a'')], [(''id'', JStr ''push''), (''x'', JStr ''b'')]]
       (prop_key es5_host [(''id'', JStr ''push'')] ''id'')
     = [[(''id'', JStr ''push''), (''x'', JStr ''a'')], [(''id'', JStr ''push''), (''x'', JStr ''b'')]] \<and>
   on_clean_host (innerJoin es5_host [[(''id'', JStr ''push'')]]
       [[(''id'', JStr ''push''), (''x'', JStr ''a'')], [(''id'', JStr ''push''), (''x'', JStr ''b'')]]
       ''id'' ''id'' None)
     = Inl TypeError"
  by code_simp

section \<open>Keys\<close>

text \<open>
  C7. The number 1 and the string "1" are different values with the same property name, so
  a left record keyed by the one is joined with a right record keyed by the other.
\<close>

theorem number_key_joins_string_key:
  "JNum 1 \<noteq> JStr ''1'' \<and> to_string (JNum 1) = to_string (JStr ''1'') \<and>
   on_clean_host (innerJoin es5_host [[(''id'', JNum 1), (''name'', JStr ''Joe'')]]
       [[(''id'', JStr ''1''), (''loc'', JStr ''Main'')]] ''id'' ''id'' None)
     = Inr [Object [(''id'', JStr ''1''), (''name'', JStr ''Joe''), (''loc'', JStr ''Main'')]]"
  by code_simp

text \<open>
  C10, as stated, fails when the key field is a name that every object inherits: a record
  without an own \<open>toString\<close> field still reads a function under that name, not
  \<open>undefined\<close>, and is not joined with a right-hand record that lacks its key field.
\<close>

theorem inherited_key_field_counterexample:
  "map_of [(''name'', JStr ''Joe'')] ''toString'' = None \<and>
   map_of [(''loc'', JStr ''Main'')] ''id'' = None \<and>
   prop_key es5_host [(''name'', JStr ''Joe'')] ''toString'' \<noteq> ''undefined'' \<and>
   on_clean_host (innerJoin es5_host [[(''name'', JStr ''Joe'')]] [[(''loc'', JStr ''Main'')]]
       ''toString'' ''id'' None) = Inr []"
  by code_simp

text \<open>
  C10, amended. When neither key field is a name that plain objects inherit, a left-hand
  record without the left key field and a right-hand record without the right key field
  both have the key \<open>undefined\<close> and form a matched pair: on a host that no call has
  touched, whenever the inner join returns, the rows are the merge results of the matched
  pairs, the row of this pair among them when it is truthy. The join returns when every
  key can be held by the index and the merge returns.
\<close>

theorem keyless_records_are_joined:
  assumes "map_of (object_names h) leftKey = None" and "map_of (object_names h) rightKey = None"
    and "l \<in> set left" and "map_of l leftKey = None"
    and "r \<in> set right" and "map_of r rightKey = None"
  shows "prop_key h l leftKey = ''undefined'' \<and> prop_key h r rightKey = ''undefined'' \<and>
    (l, r) \<in> set (inner_calls h left right leftKey rightKey) \<and>
    (\<forall>rows. on_clean_host (innerJoin h left right leftKey rightKey m) = Inr rows \<longrightarrow>
       merge_all (merge_or_default m) (inner_calls h left right leftKey rightKey) = Inr rows \<and>
       (\<forall>v. merge_or_default m l r = Inr v \<longrightarrow> truthy v \<longrightarrow> v \<in> set rows)) \<and>
    (plain_keys h leftKey left \<longrightarrow> plain_keys h rightKey right \<longrightarrow>
       (\<forall>q \<in> set (inner_calls h left right leftKey rightKey).
          \<exists>v. merge_or_default m (fst q) (snd q) = Inr v) \<longrightarrow>
       (\<exists>rows. on_clean_host (innerJoin h left right leftKey rightKey m) = Inr rows))"
proof -
  have kl: "prop_key h l leftKey = ''undefined''"
    using assms(1,4) by (rule prop_key_missing)
  have kr: "prop_key h r rightKey = ''undefined''"
    using assms(2,6) by (rule prop_key_missing)
  have mem: "(l, r) \<in> set (inner_calls h left right leftKey rightKey)"
    using assms(3,5) kl kr by (simp add: inner_calls_member)
  have ret: "merge_all (merge_or_default m) (inner_calls h left right leftKey rightKey) = Inr rows \<and>
       (\<forall>v. merge_or_default m l r = Inr v \<longrightarrow> truthy v \<longrightarrow> v \<in> set rows)"
    if "on_clean_host (innerJoin h left right leftKey rightKey m) = Inr rows" for rows
  proof -
    note all = innerJoin_returns[OF that]
    show ?thesis
      using all merge_all_member[OF all mem] by simp
  qed
  have tot: "\<exists>rows. on_clean_host (innerJoin h left right leftKey rightKey m) = Inr rows"
    if "plain_keys h leftKey left" and "plain_keys h rightKey right"
      and "\<forall>q \<in> set (inner_calls h left right leftKey rightKey).
          \<exists>v. merge_or_default m (fst q) (snd q) = Inr v"
    using that by (simp add: innerJoin_plain merge_all_total_on)
  show ?thesis
    using kl kr mem ret tot by blast
qed

theorem keyless_records_are_joined_witness:
  "on_clean_host (innerJoin es5_host [[(''name'', JStr ''Joe'')]] [[(''loc'', JStr ''Main'')]] ''id'' ''pid'' None)
     = Inr [Object [(''name'', JStr ''Joe''), (''loc'', JStr ''Main'')]] \<and>
   prop_key es5_host [(''name'', JStr ''Joe'')] ''id'' = ''undefined'' \<and>
   prop_key es5_host [(''loc'', JStr ''Main'')] ''pid'' = ''undefined'' \<and>
   ([(''name'', JStr ''Joe'')], [(''loc'', JStr ''Main'')])
     \<in> set (inner_calls es5_host [[(''name'', JStr ''Joe'')]] [[(''loc'', JStr ''Main'')]] ''id'' ''pid'')"
proof -
  have a: "map_of (object_names es5_host) ''id'' = None" by code_simp
  have b: "map_of (object_names es5_host) ''pid'' = None" by code_simp
  have c: "on_clean_host (innerJoin es5_host [[(''name'', JStr ''Joe'')]] [[(''loc'', JStr ''Main'')]] ''id'' ''pid'' None)
     = Inr [Object [(''name'', JStr ''Joe''), (''loc'', JStr ''Main'')]]"
    by code_simp
  from keyless_records_are_joined[of es5_host "''id''" "''pid''" "[(''name'', JStr ''Joe'')]"
      "[[(''name'', JStr ''Joe'')]]" "[(''loc'', JStr ''Main'')]" "[[(''loc'', JStr ''Main'')]]" None,
      OF a b] c
  show ?thesis by simp
qed


section \<open>Properties of the default merge\<close>

lemma defaultMerge_example:
  "defaultMerge [(''a'', JNum 1), (''b'', JNum 2)] [(''b'', JNum 3), (''c'', JNum 4)]
     = Inr [(''a'', JNum 1), (''b'', JNum 3), (''c'', JNum 4)]"
  by code_simp

text \<open>
  C8. A record with an own field named \<open>hasOwnProperty\<close> is not merged: the loop calls the
  field's value, which is not a function, and the merge raises instead of returning the
  record with the fields of both sides; so does a join that merges such a record.
\<close>

theorem defaultMerge_raises_on_hasOwnProperty_field:
  "defaultMerge [(''a'', JNum 1), (''hasOwnProperty'', JBool True)] [(''c'', JNum 4)]
     = Inl TypeError \<and>
   on_clean_host (innerJoin es5_host [[(''id'', JNum 1), (''hasOwnProperty'', JBool True)]]
       [[(''id'', JNum 1), (''c'', JNum 4)]] ''id'' ''id'' None)
     = Inl TypeError"
  by code_simp

end
